theory Spec2Isabelle
  imports Main "HOL-Library.Sublist" "HOL-Library.Multiset" "HOL-Library.Char_ord"
    "HOL-Library.List_Lexorder"
begin

section \<open>Paths\<close>

text \<open>
  A path is the list of its elements below the root. \<open>path.Join\<close> and
  \<open>filepath.Join\<close> append an element string to a cleaned path and clean the
  result: the string is split at the separator, empty and \<open>.\<close> elements are
  dropped, and \<open>..\<close> removes the element before it (at the root it is dropped).
\<close>

type_synonym path = "string list"

fun split_sep :: "string \<Rightarrow> string list" where
  "split_sep [] = [[]]"
| "split_sep (c # cs) =
     (if c = CHR ''/'' then [] # split_sep cs
      else (case split_sep cs of [] \<Rightarrow> [[c]] | w # ws \<Rightarrow> (c # w) # ws))"

definition clean_step :: "path \<Rightarrow> string \<Rightarrow> path" where
  "clean_step p s =
     (if s = [] \<or> s = ''.'' then p else if s = ''..'' then butlast p else p @ [s])"

definition Join :: "path \<Rightarrow> string \<Rightarrow> path" where
  "Join p s = foldl clean_step p (split_sep s)"

section \<open>The file system\<close>

text \<open>
  The disk is a partial map from paths to nodes. It has no permission bits and no links;
  an operation fails where the tree forbids it, and also where the environment injects a
  fault (permission denied, disk full, I/O error), so that every error branch of the
  program can be reached.
\<close>

datatype node = Dir | File string

type_synonym fs = "path \<Rightarrow> node option"

datatype wfault = OpenFails | ShortWrite nat

datatype os_error = PermissionError | OtherError

fun IsPermission :: "os_error \<Rightarrow> bool" where
  "IsPermission PermissionError = True"
| "IsPermission OtherError = False"

text \<open>
  \<open>ioutil.WriteFile\<close>: opens the file (created or truncated), writes, closes. The
  flag of the result is \<open>True\<close> when the error is nil. A write that fails after the
  file was opened leaves the bytes written so far.
\<close>

definition WriteFile :: "(path \<Rightarrow> wfault option) \<Rightarrow> path \<Rightarrow> string \<Rightarrow> fs \<Rightarrow> bool \<times> fs" where
  "WriteFile flt p content fs =
     (if p = [] \<or> fs (butlast p) \<noteq> Some Dir \<or> fs p = Some Dir then (False, fs)
      else (case flt p of
              None \<Rightarrow> (True, fs(p \<mapsto> File content))
            | Some OpenFails \<Rightarrow> (False, fs)
            | Some (ShortWrite n) \<Rightarrow> (False, fs(p \<mapsto> File (take n content)))))"

text \<open>
  \<open>os.MkdirAll\<close>: walks from the root, keeps the directories that exist, creates
  the missing ones, and fails at a file in the way or at a fault.
\<close>

fun mkdirs :: "(path \<Rightarrow> bool) \<Rightarrow> path \<Rightarrow> string list \<Rightarrow> fs \<Rightarrow> bool \<times> fs" where
  "mkdirs flt cur [] fs = (True, fs)"
| "mkdirs flt cur (c # cs) fs =
     (case fs (cur @ [c]) of
        Some Dir \<Rightarrow> mkdirs flt (cur @ [c]) cs fs
      | Some (File x) \<Rightarrow> (False, fs)
      | None \<Rightarrow> if flt (cur @ [c]) then (False, fs)
                else mkdirs flt (cur @ [c]) cs (fs(cur @ [c] \<mapsto> Dir)))"

definition MkdirAll :: "(path \<Rightarrow> bool) \<Rightarrow> path \<Rightarrow> fs \<Rightarrow> bool \<times> fs" where
  "MkdirAll flt p fs = mkdirs flt [] p fs"

text \<open>
  \<open>os.RemoveAll\<close>: removes the path and everything below it; a path that does not
  exist is no error. A removal that fails is taken to remove nothing.
\<close>

definition RemoveAll :: "(path \<Rightarrow> os_error option) \<Rightarrow> path \<Rightarrow> fs \<Rightarrow> os_error option \<times> fs" where
  "RemoveAll flt p fs =
     (case flt p of
        Some e \<Rightarrow> (Some e, fs)
      | None \<Rightarrow> (None, (\<lambda>q. if prefix p q then None else fs q)))"

text \<open>
  \<open>shutil.CopyTree\<close>: the source must be a directory and the destination must not
  exist; the destination is created with its parents and receives a copy of the tree
  below the source, as it is when the call starts.
\<close>

definition CopyTree ::
  "(path \<Rightarrow> path \<Rightarrow> bool) \<Rightarrow> (path \<Rightarrow> bool) \<Rightarrow> path \<Rightarrow> path \<Rightarrow> fs \<Rightarrow> bool \<times> fs" where
  "CopyTree cflt mflt src dst fs =
     (if fs src \<noteq> Some Dir \<or> fs dst \<noteq> None then (False, fs)
      else (case MkdirAll mflt dst fs of
              (False, fs1) \<Rightarrow> (False, fs1)
            | (True, fs1) \<Rightarrow>
                if cflt src dst then (False, fs1)
                else (True, (\<lambda>q. if prefix dst q then fs (src @ drop (length dst) q)
                                  else fs1 q))))"

text \<open>
  \<open>ioutil.TempDir\<close>: tries candidate names until one does not exist yet and creates
  it; it fails when the candidates are used up or the directory cannot be created.
\<close>

definition TempDir :: "path list \<Rightarrow> fs \<Rightarrow> (path \<times> fs) option" where
  "TempDir cands fs =
     (case find (\<lambda>p. fs p = None) cands of
        None \<Rightarrow> None
      | Some p \<Rightarrow> if p = [] \<or> fs (butlast p) \<noteq> Some Dir then None
                  else Some (p, fs(p \<mapsto> Dir)))"

text \<open>
  A well-formed disk: the root is a directory, and every other node lies in a
  directory.
\<close>

definition wf_fs :: "fs \<Rightarrow> bool" where
  "wf_fs fs \<longleftrightarrow>
     fs [] = Some Dir \<and> (\<forall>p. p \<noteq> [] \<longrightarrow> fs p \<noteq> None \<longrightarrow> fs (butlast p) = Some Dir)"

section \<open>Licenses, errors and the environment\<close>

text \<open>
  Modelled from the spec: the \<open>License\<close> struct is declared outside the files at
  hand. The spec gives a summary a key and a name, and the full record a body used for
  rendering.
\<close>

record License =
  Key :: string
  Name :: string
  Body :: string

text \<open>The values the error constructors of the package are called with.\<close>

datatype error =
    ErrParsingArguments
  | ErrBadFlagSyntax string
  | ErrCannotLocateHomeDir
  | ErrCreateTempDirFailed string
  | ErrCreateDirFailed path
  | ErrFetchFailed
  | ErrDeserializeFailed string
  | ErrWriteFileFailed path
  | ErrRemovePathFailed path
  | ErrCopyTreeFailed path path
  | ErrReadFailed

text \<open>
  Modelled from the spec: the directory constants are declared outside the files at
  hand; the persisted layout is \<open>data/raw/<key>.json\<close>,
  \<open>data/templates/<key>.tmpl\<close> and \<open>data/index.json\<close>.
\<close>

definition DataDirectory :: string where "DataDirectory = ''data''"
definition RawDirectory :: string where "RawDirectory = ''raw''"
definition TemplatesDirectory :: string where "TemplatesDirectory = ''templates''"
definition IndexFile :: string where "IndexFile = ''index.json''"

text \<open>
  Everything one call takes from outside the program: the flag parser, the home
  directory, the candidate names of the temporary directory, the answers of the remote
  source, the decoders and the renderer (declared outside the files at hand), the name
  of the license directory, the faults of the disk, and the order in which the
  scheduler lets the goroutines step.
\<close>

record env =
  flag_parse :: "string list \<Rightarrow> (string list \<times> string list) option"
  home_dir :: "path option"
  temp_candidates :: "path list"
  fetchIndex :: "string option"
  fetchFullInfo :: "License \<Rightarrow> string option"
  readIndex :: "string option"
  jsonToList :: "string \<Rightarrow> License list option"
  jsonToLicense :: "string \<Rightarrow> License option"
  textTemplateString :: "License \<Rightarrow> string"
  LicenseDirectory :: string
  mkdir_fault :: "path \<Rightarrow> bool"
  write_fault :: "path \<Rightarrow> wfault option"
  remove_fault :: "path \<Rightarrow> os_error option"
  copy_fault :: "path \<Rightarrow> path \<Rightarrow> bool"
  schedule :: "nat list"

section \<open>setLogLevel and writeLicense\<close>

text \<open>
  \<open>flag_parse\<close> answers \<open>None\<close> for a parse error and otherwise the bad flags
  and the names of the flags present. The result of \<open>setLogLevel\<close> is the error, or
  which of the two logger switches were set.
\<close>

definition setLogLevel :: "env \<Rightarrow> string list \<Rightarrow> error + (bool \<times> bool)" where
  "setLogLevel e args =
     (case flag_parse e args of
        None \<Rightarrow> Inl ErrParsingArguments
      | Some (bad, present) \<Rightarrow>
          (case bad of
             b # bs \<Rightarrow> Inl (ErrBadFlagSyntax b)
           | [] \<Rightarrow> Inr (''quiet'' \<in> set present, ''verbose'' \<in> set present)))"

text \<open>
  \<open>writeLicense\<close> in two halves, the points where a goroutine touches the shared
  disk: fetch, decode and write the raw file; then render and write the template.
\<close>

definition writeLicense_raw :: "env \<Rightarrow> License \<Rightarrow> path \<Rightarrow> fs \<Rightarrow> (error + License) \<times> fs" where
  "writeLicense_raw e l rawPath fs =
     (case fetchFullInfo e l of
        None \<Rightarrow> (Inl ErrFetchFailed, fs)
      | Some content \<Rightarrow>
          (case jsonToLicense e content of
             None \<Rightarrow> (Inl (ErrDeserializeFailed content), fs)
           | Some fullLicense \<Rightarrow>
               (let rawFilePath = Join rawPath (Key l @ ''.json'') in
                case WriteFile (write_fault e) rawFilePath content fs of
                  (False, fs1) \<Rightarrow> (Inl (ErrWriteFileFailed rawFilePath), fs1)
                | (True, fs1) \<Rightarrow> (Inr fullLicense, fs1))))"

definition writeLicense_template :: "env \<Rightarrow> License \<Rightarrow> License \<Rightarrow> path \<Rightarrow> fs \<Rightarrow> error option \<times> fs" where
  "writeLicense_template e l fullLicense templatesPath fs =
     (let templateData = textTemplateString e fullLicense;
          templateFilePath = Join templatesPath (Key l @ ''.tmpl'') in
      case WriteFile (write_fault e) templateFilePath templateData fs of
        (False, fs1) \<Rightarrow> (Some (ErrWriteFileFailed templateFilePath), fs1)
      | (True, fs1) \<Rightarrow> (None, fs1))"

definition writeLicense :: "env \<Rightarrow> License \<Rightarrow> path \<Rightarrow> path \<Rightarrow> fs \<Rightarrow> error option \<times> fs" where
  "writeLicense e l rawPath templatesPath fs =
     (case writeLicense_raw e l rawPath fs of
        (Inl err, fs1) \<Rightarrow> (Some err, fs1)
      | (Inr fullLicense, fs1) \<Rightarrow> writeLicense_template e l fullLicense templatesPath fs1)"

section \<open>The goroutines\<close>

text \<open>
  A goroutine of the fan-out is its license and the point it has reached: before the
  fetch, before the template, about to send its result on the channel, about to call
  \<open>wg.Done\<close>, finished. The last two remember what was sent.
\<close>

datatype pc = Fetch | Template License | Send "error option" | Done "error option"
  | Finished "error option"

record cstate =
  tasks :: "(License \<times> pc) list"
  chan :: "error option list"
  wg :: int
  cfs :: fs

text \<open>
  One step of goroutine \<open>i\<close>. A send on a full channel blocks: the state stays as it
  is.
\<close>

definition step :: "env \<Rightarrow> path \<Rightarrow> path \<Rightarrow> nat \<Rightarrow> cstate \<Rightarrow> nat \<Rightarrow> cstate" where
  "step e rawPath templatesPath cap s i =
     (if length (tasks s) \<le> i then s
      else (case tasks s ! i of
        (l, Fetch) \<Rightarrow>
          (case writeLicense_raw e l rawPath (cfs s) of
             (Inl err, f) \<Rightarrow> s\<lparr>tasks := (tasks s)[i := (l, Send (Some err))], cfs := f\<rparr>
           | (Inr fullLicense, f) \<Rightarrow>
               s\<lparr>tasks := (tasks s)[i := (l, Template fullLicense)], cfs := f\<rparr>)
      | (l, Template fullLicense) \<Rightarrow>
          (case writeLicense_template e l fullLicense templatesPath (cfs s) of
             (r, f) \<Rightarrow> s\<lparr>tasks := (tasks s)[i := (l, Send r)], cfs := f\<rparr>)
      | (l, Send r) \<Rightarrow>
          if length (chan s) < cap
          then s\<lparr>tasks := (tasks s)[i := (l, Done r)], chan := chan s @ [r]\<rparr>
          else s
      | (l, Done r) \<Rightarrow> s\<lparr>tasks := (tasks s)[i := (l, Finished r)], wg := wg s - 1\<rparr>
      | (l, Finished r) \<Rightarrow> s))"

definition run :: "env \<Rightarrow> path \<Rightarrow> path \<Rightarrow> nat \<Rightarrow> nat list \<Rightarrow> cstate \<Rightarrow> cstate" where
  "run e rawPath templatesPath cap sched s = foldl (step e rawPath templatesPath cap) s sched"

text \<open>
  \<open>wg.Add(len(licenses))\<close>, the channel of that capacity, and one goroutine per
  license, each with its own copy of the license.
\<close>

definition spawn :: "License list \<Rightarrow> fs \<Rightarrow> cstate" where
  "spawn licenses fs =
     \<lparr>tasks = map (\<lambda>l. (l, Fetch)) licenses, chan = [], wg = int (length licenses), cfs = fs\<rparr>"

text \<open>
  The scheduler is fair: after the steps of the schedule every goroutine still gets the
  steps it needs (at most four).
\<close>

definition fair_rest :: "nat \<Rightarrow> nat list" where
  "fair_rest n = concat (map (replicate 4) [0..<n])"

definition fan_out :: "env \<Rightarrow> path \<Rightarrow> path \<Rightarrow> License list \<Rightarrow> fs \<Rightarrow> cstate" where
  "fan_out e rawPath templatesPath licenses fs =
     run e rawPath templatesPath (length licenses)
       (schedule e @ fair_rest (length licenses)) (spawn licenses fs)"

text \<open>\<open>wg.Wait\<close> returns when the counter is zero; \<open>None\<close> is a call that never returns.\<close>

definition Wait :: "cstate \<Rightarrow> cstate option" where
  "Wait s = (if wg s = 0 then Some s else None)"

text \<open>The loop over the closed channel returns the first error that is not nil.\<close>

fun first_error :: "error option list \<Rightarrow> error option" where
  "first_error [] = None"
| "first_error (None # rs) = first_error rs"
| "first_error (Some err # rs) = Some err"

text \<open>
  What the proofs say about a goroutine: whether it has sent, what it sends or has
  sent, whether it has finished, and how far it has come.
\<close>

fun has_sent :: "pc \<Rightarrow> bool" where
  "has_sent (Done r) = True"
| "has_sent (Finished r) = True"
| "has_sent p = False"

fun sent_value :: "pc \<Rightarrow> error option" where
  "sent_value (Send r) = r"
| "sent_value (Done r) = r"
| "sent_value (Finished r) = r"
| "sent_value p = None"

fun is_finished :: "pc \<Rightarrow> bool" where
  "is_finished (Finished r) = True"
| "is_finished p = False"

text \<open>The errors \<open>writeLicense\<close> returns.\<close>

fun from_writeLicense :: "error option \<Rightarrow> bool" where
  "from_writeLicense None = True"
| "from_writeLicense (Some ErrFetchFailed) = True"
| "from_writeLicense (Some (ErrDeserializeFailed content)) = True"
| "from_writeLicense (Some (ErrWriteFileFailed p)) = True"
| "from_writeLicense (Some err) = False"

fun rank :: "pc \<Rightarrow> nat" where
  "rank Fetch = 0"
| "rank (Template full) = 1"
| "rank (Send r) = 2"
| "rank (Done r) = 3"
| "rank (Finished r) = 4"

text \<open>
  The channel holds what the goroutines that have sent have sent, and the counter of
  the wait group is the number of goroutines that have not finished.
\<close>

definition chan_inv :: "nat \<Rightarrow> cstate \<Rightarrow> bool" where
  "chan_inv n s \<longleftrightarrow>
     length (tasks s) = n \<and>
     mset (chan s) =
       image_mset (\<lambda>t. sent_value (snd t)) (filter_mset (\<lambda>t. has_sent (snd t)) (mset (tasks s))) \<and>
     wg s = int (size (filter_mset (\<lambda>t. \<not> is_finished (snd t)) (mset (tasks s))))"

section \<open>Bootstrap\<close>

text \<open>The loop over \<open>pathsToMake\<close>: the first path that cannot be made, if any.\<close>

fun make_paths :: "env \<Rightarrow> path list \<Rightarrow> fs \<Rightarrow> path option \<times> fs" where
  "make_paths e [] fs = (None, fs)"
| "make_paths e (p # ps) fs =
     (case MkdirAll (mkdir_fault e) p fs of
        (False, fs1) \<Rightarrow> (Some p, fs1)
      | (True, fs1) \<Rightarrow> make_paths e ps fs1)"

definition dataPath :: "path \<Rightarrow> path" where
  "dataPath tempLicensePath = Join tempLicensePath DataDirectory"

definition rawPath :: "path \<Rightarrow> path" where
  "rawPath tempLicensePath = Join (dataPath tempLicensePath) RawDirectory"

definition templatesPath :: "path \<Rightarrow> path" where
  "templatesPath tempLicensePath = Join (dataPath tempLicensePath) TemplatesDirectory"

definition indexFilePath :: "path \<Rightarrow> path" where
  "indexFilePath tempLicensePath = Join (dataPath tempLicensePath) IndexFile"

definition realLicensePath :: "env \<Rightarrow> path \<Rightarrow> path" where
  "realLicensePath e home = Join home (LicenseDirectory e)"

text \<open>
  From the data directories to the decoded index: the result is the error, or the
  licenses of the index, with the disk as it is then.
\<close>

definition fill_staging :: "env \<Rightarrow> path \<Rightarrow> fs \<Rightarrow> (error + License list) \<times> fs" where
  "fill_staging e tmp fs =
     (case make_paths e [rawPath tmp, templatesPath tmp] fs of
        (Some p, fs1) \<Rightarrow> (Inl (ErrCreateDirFailed p), fs1)
      | (None, fs1) \<Rightarrow>
          (case fetchIndex e of
             None \<Rightarrow> (Inl ErrFetchFailed, fs1)
           | Some serialized \<Rightarrow>
               (case WriteFile (write_fault e) (indexFilePath tmp) serialized fs1 of
                  (False, fs2) \<Rightarrow> (Inl (ErrCreateDirFailed (indexFilePath tmp)), fs2)
                | (True, fs2) \<Rightarrow>
                    (case jsonToList e serialized of
                       None \<Rightarrow> (Inl (ErrDeserializeFailed serialized), fs2)
                     | Some licenses \<Rightarrow> (Inr licenses, fs2)))))"

text \<open>Removing the old cache and copying the temporary directory to its place.\<close>

definition commit :: "env \<Rightarrow> path \<Rightarrow> path \<Rightarrow> fs \<Rightarrow> error option \<times> fs" where
  "commit e home tmp fs =
     (case RemoveAll (remove_fault e) (realLicensePath e home) fs of
        (rerr, fs1) \<Rightarrow>
          if (case rerr of None \<Rightarrow> False | Some x \<Rightarrow> IsPermission x)
          then (Some (ErrRemovePathFailed (realLicensePath e home)), fs1)
          else (case CopyTree (copy_fault e) (mkdir_fault e) tmp (realLicensePath e home) fs1 of
                  (False, fs2) \<Rightarrow> (Some (ErrCopyTreeFailed tmp (realLicensePath e home)), fs2)
                | (True, fs2) \<Rightarrow> (None, fs2)))"

text \<open>The fan-out, the join, the check of the channel and the commit.\<close>

definition refresh :: "env \<Rightarrow> path \<Rightarrow> path \<Rightarrow> License list \<Rightarrow> fs \<Rightarrow> (error option \<times> fs) option" where
  "refresh e home tmp licenses fs =
     (case Wait (fan_out e (rawPath tmp) (templatesPath tmp) licenses fs) of
        None \<Rightarrow> None
      | Some s \<Rightarrow>
          (case first_error (chan s) of
             Some err \<Rightarrow> Some (Some err, cfs s)
           | None \<Rightarrow> Some (commit e home tmp (cfs s))))"

text \<open>
  The deferred function: it removes the temporary directory and drops the error. The
  program has no branch for a failure of this removal, and the directory is the
  program's own (made by it a moment before), so the removal is taken to succeed.
\<close>

definition cleanup :: "path \<Rightarrow> fs \<Rightarrow> fs" where
  "cleanup tempLicensePath fs = snd (RemoveAll (\<lambda>p. None) tempLicensePath fs)"

text \<open>
  \<open>Bootstrap\<close>. Once the temporary directory exists, the deferred function runs on
  every return. The result \<open>None\<close> is a call that never returns.
\<close>

definition Bootstrap :: "env \<Rightarrow> string list \<Rightarrow> fs \<Rightarrow> (error option \<times> fs) option" where
  "Bootstrap e args fs =
     (case setLogLevel e args of
        Inl err \<Rightarrow> Some (Some err, fs)
      | Inr lv \<Rightarrow>
          (case home_dir e of
             None \<Rightarrow> Some (Some ErrCannotLocateHomeDir, fs)
           | Some home \<Rightarrow>
               (case TempDir (temp_candidates e) fs of
                  None \<Rightarrow> Some (Some (ErrCreateTempDirFailed []), fs)
                | Some (tmp, fs1) \<Rightarrow>
                    (case (case fill_staging e tmp fs1 of
                             (Inl err, fs2) \<Rightarrow> Some (Some err, fs2)
                           | (Inr licenses, fs2) \<Rightarrow> refresh e home tmp licenses fs2) of
                       None \<Rightarrow> None
                     | Some (r, fs3) \<Rightarrow> Some (r, cleanup tmp fs3)))))"

section \<open>Listing\<close>

text \<open>
  Modelled from the spec: \<open>ByLicenseKey\<close> is declared outside the files at hand;
  the spec has the list sorted by key, ascending and byte-wise, which is the order of Go
  strings.
\<close>

definition ByLicenseKey_Less :: "License \<Rightarrow> License \<Rightarrow> bool" where
  "ByLicenseKey_Less a b \<longleftrightarrow> Key a < Key b"

text \<open>
  \<open>sort.Sort\<close> promises a sorted permutation and no stability; insertion sort stands
  for it here.
\<close>

fun insert_by :: "('a \<Rightarrow> 'a \<Rightarrow> bool) \<Rightarrow> 'a \<Rightarrow> 'a list \<Rightarrow> 'a list" where
  "insert_by lt x [] = [x]"
| "insert_by lt x (y # ys) =
     (if lt y x then y # insert_by lt x ys else x # y # ys)"

definition Sort :: "('a \<Rightarrow> 'a \<Rightarrow> bool) \<Rightarrow> 'a list \<Rightarrow> 'a list" where
  "Sort lt xs = foldr (insert_by lt) xs []"

text \<open>
  \<open>printList\<close>: the first component is the caller's slice after the call (its
  array is sorted in place), the second what is written to the output, one string per
  print call. How \<open>Printf\<close> renders one license is a parameter.
\<close>

definition printList :: "(License \<Rightarrow> string) \<Rightarrow> License list \<Rightarrow> License list \<times> string list" where
  "printList render licenses =
     (let sorted_licenses = Sort ByLicenseKey_Less licenses in
      (sorted_licenses,
       [''Available licenses:'' @ [CHR 0x0A, CHR 0x0A]] @ map render sorted_licenses
         @ [[CHR 0x0A]]))"

definition getLocalList :: "env \<Rightarrow> License list option" where
  "getLocalList e = (case readIndex e of None \<Rightarrow> None | Some content \<Rightarrow> jsonToList e content)"

definition getRemoteList :: "env \<Rightarrow> License list option" where
  "getRemoteList e = (case fetchIndex e of None \<Rightarrow> None | Some body \<Rightarrow> jsonToList e body)"

definition ListLocal :: "env \<Rightarrow> (License \<Rightarrow> string) \<Rightarrow> error option \<times> string list" where
  "ListLocal e render =
     (case getLocalList e of
        None \<Rightarrow> (Some ErrReadFailed, [])
      | Some licenses \<Rightarrow> (None, snd (printList render licenses)))"

definition ListRemote :: "env \<Rightarrow> (License \<Rightarrow> string) \<Rightarrow> error option \<times> string list" where
  "ListRemote e render =
     (case getRemoteList e of
        None \<Rightarrow> (Some ErrFetchFailed, [])
      | Some licenses \<Rightarrow> (None, snd (printList render licenses)))"

section \<open>A small world to run the program in\<close>

text \<open>
  A disk with a home and a temporary directory, a remote source with two licenses, no
  faults, and a schedule that interleaves the two goroutines.
\<close>

definition demo_fs :: fs where
  "demo_fs = [[] \<mapsto> Dir, [''home''] \<mapsto> Dir, [''tmp''] \<mapsto> Dir]"

definition demo_license :: "string \<Rightarrow> License" where
  "demo_license k = \<lparr>Key = k, Name = k, Body = k\<rparr>"

definition demo_env :: env where
  "demo_env =
     \<lparr>flag_parse = (\<lambda>args. Some ([], [])),
      home_dir = Some [''home''],
      temp_candidates = [[''tmp''], [''tmp'', ''license1'']],
      fetchIndex = Some ''[mit,isc]'',
      fetchFullInfo = (\<lambda>l. Some (Key l)),
      readIndex = Some ''[mit,isc]'',
      jsonToList = (\<lambda>s. if s = ''[mit,isc]'' then Some [demo_license ''mit'', demo_license ''isc'']
                         else None),
      jsonToLicense = (\<lambda>s. if s = [] then None else Some (demo_license s)),
      textTemplateString = (\<lambda>l. ''T:'' @ Body l),
      LicenseDirectory = ''.license'',
      mkdir_fault = (\<lambda>p. False),
      write_fault = (\<lambda>p. None),
      remove_fault = (\<lambda>p. None),
      copy_fault = (\<lambda>p q. False),
      schedule = [1, 0, 0, 1]\<rparr>"

definition demo_dirs :: fs where
  "demo_dirs = [[] \<mapsto> Dir, [''raw''] \<mapsto> Dir, [''templates''] \<mapsto> Dir]"

definition demo_mit :: License where
  "demo_mit = demo_license ''mit''"

text \<open>The same world with a remote source that refuses every detail.\<close>

definition demo_env_no_detail :: env where
  "demo_env_no_detail = demo_env\<lparr>fetchFullInfo := (\<lambda>l. None)\<rparr>"

text \<open>With a decoder that rejects every detail.\<close>

definition demo_env_no_decode :: env where
  "demo_env_no_decode = demo_env\<lparr>jsonToLicense := (\<lambda>s. None)\<rparr>"

text \<open>With a disk that refuses to open one file, or breaks off the write of one file.\<close>

definition demo_env_open_fails :: "path \<Rightarrow> env" where
  "demo_env_open_fails p = demo_env\<lparr>write_fault := (\<lambda>q. if q = p then Some OpenFails else None)\<rparr>"

definition demo_env_short_write :: "path \<Rightarrow> env" where
  "demo_env_short_write p =
     demo_env\<lparr>write_fault := (\<lambda>q. if q = p then Some (ShortWrite 1) else None)\<rparr>"


text \<open>With faults of the removal and of the copy.\<close>

definition demo_env_faulty :: "(path \<Rightarrow> os_error option) \<Rightarrow> (path \<Rightarrow> path \<Rightarrow> bool) \<Rightarrow> env" where
  "demo_env_faulty rf cf = demo_env\<lparr>remove_fault := rf, copy_fault := cf\<rparr>"

definition demo_rf :: "os_error \<Rightarrow> path \<Rightarrow> os_error option" where
  "demo_rf x p = (if p = [''home'', ''.license''] then Some x else None)"

text \<open>
  The paths and the disks of a run in this world: the temporary directory, the cache,
  the disk with the temporary directory, with the data directories, with the index
  file, and with the files of the two licenses.
\<close>

definition demo_tmp :: path where
  "demo_tmp = [''tmp'', ''license1'']"

definition demo_real :: path where
  "demo_real = [''home'', ''.license'']"

definition demo_ls :: "License list" where
  "demo_ls = [demo_license ''mit'', demo_license ''isc'']"

definition demo_fs1 :: fs where
  "demo_fs1 = demo_fs(demo_tmp \<mapsto> Dir)"

definition demo_made :: fs where
  "demo_made = demo_fs1(demo_tmp @ [''data''] \<mapsto> Dir, demo_tmp @ [''data'', ''raw''] \<mapsto> Dir,
     demo_tmp @ [''data'', ''templates''] \<mapsto> Dir)"

definition demo_staged :: fs where
  "demo_staged = demo_made(demo_tmp @ [''data'', ''index.json''] \<mapsto> File ''[mit,isc]'')"

definition demo_full :: fs where
  "demo_full = demo_staged
     (demo_tmp @ [''data'', ''raw'', ''isc.json''] \<mapsto> File ''isc'',
      demo_tmp @ [''data'', ''raw'', ''mit.json''] \<mapsto> File ''mit'',
      demo_tmp @ [''data'', ''templates'', ''mit.tmpl''] \<mapsto> File ''T:mit'',
      demo_tmp @ [''data'', ''templates'', ''isc.tmpl''] \<mapsto> File ''T:isc'')"

section \<open>The fan-out: what every schedule keeps\<close>

lemma run_Nil: "run e rp tp cap [] s = s"
  by (simp add: run_def)

lemma run_Cons: "run e rp tp cap (i # sched) s = run e rp tp cap sched (step e rp tp cap s i)"
  by (simp add: run_def)

lemma run_append: "run e rp tp cap (a @ b) s = run e rp tp cap b (run e rp tp cap a s)"
  by (simp add: run_def)

lemma chan_inv_spawn: "chan_inv (length ls) (spawn ls fs)"
proof -
  have a: "filter_mset (\<lambda>t. has_sent (snd t)) (mset (map (\<lambda>l. (l, Fetch)) ls)) = {#}"
    by (induction ls) simp_all
  have b: "size (filter_mset (\<lambda>t. \<not> is_finished (snd t)) (mset (map (\<lambda>l. (l, Fetch)) ls))) = length ls"
    by (induction ls) simp_all
  show ?thesis
    unfolding chan_inv_def spawn_def by (simp add: a b del: mset_map)
qed

lemma mset_update_split:
  assumes "i < length xs"
  obtains M where "mset xs = add_mset (xs ! i) M" and "\<And>y. mset (xs[i := y]) = add_mset y M"
proof
  have "xs = take i xs @ [xs ! i] @ drop (Suc i) xs"
    using assms by (simp add: id_take_nth_drop)
  then have "mset xs = mset (take i xs @ [xs ! i] @ drop (Suc i) xs)" by simp
  then show "mset xs = add_mset (xs ! i) (mset (take i xs) + mset (drop (Suc i) xs))" by simp
  show "\<And>y. mset (xs[i := y]) = add_mset y (mset (take i xs) + mset (drop (Suc i) xs))"
    using assms by (simp add: upd_conv_take_nth_drop)
qed

lemma sent_lt:
  assumes "chan_inv n s" "i < n" "\<not> has_sent (snd (tasks s ! i))"
  shows "length (chan s) < n"
proof -
  have len: "length (tasks s) = n" using assms(1) by (simp add: chan_inv_def)
  obtain M where M: "mset (tasks s) = add_mset (tasks s ! i) M"
    using mset_update_split[of i "tasks s"] assms(2) len by blast
  have "size (mset (tasks s)) = Suc (size M)" by (simp add: M)
  then have sz: "n = Suc (size M)" using len by simp
  have "length (chan s) = size (mset (chan s))" by simp
  also have "\<dots> = size (filter_mset (\<lambda>t. has_sent (snd t)) M)"
    using assms(1,3) by (simp add: chan_inv_def M)
  also have "\<dots> \<le> size M" by (rule size_filter_mset_lesseq)
  finally show ?thesis using sz by simp
qed

lemma chan_inv_step:
  assumes "chan_inv n s"
  shows "chan_inv n (step e rp tp n s i)"
proof (cases "i < length (tasks s)")
  case False
  then show ?thesis using assms by (simp add: step_def)
next
  case True
  have len: "length (tasks s) = n" using assms by (simp add: chan_inv_def)
  obtain l p where lp: "tasks s ! i = (l, p)" by (cases "tasks s ! i")
  obtain M where M: "mset (tasks s) = add_mset (tasks s ! i) M"
    and M': "\<And>y. mset ((tasks s)[i := y]) = add_mset y M"
    using mset_update_split[OF True] by blast
  show ?thesis
  proof (cases p)
    case Fetch
    then show ?thesis using True lp assms
      by (auto simp: step_def chan_inv_def M M' split: prod.splits sum.splits)
  next
    case (Template full)
    then show ?thesis using True lp assms
      by (auto simp: step_def chan_inv_def M M' split: prod.splits sum.splits)
  next
    case (Send r)
    have "length (chan s) < n" using sent_lt[OF assms] True len lp Send by simp
    then show ?thesis using True lp assms Send
      by (auto simp: step_def chan_inv_def M M' split: prod.splits sum.splits)
  next
    case (Done r)
    then show ?thesis using True lp assms
      by (auto simp: step_def chan_inv_def M M' split: prod.splits sum.splits)
  next
    case (Finished r)
    then show ?thesis using True lp assms by (simp add: step_def)
  qed
qed

lemma chan_inv_run: "chan_inv n s \<Longrightarrow> chan_inv n (run e rp tp n sched s)"
  by (induction sched arbitrary: s) (simp_all add: run_Nil run_Cons chan_inv_step)

lemma step_other: "j \<noteq> i \<Longrightarrow> tasks (step e rp tp n s i) ! j = tasks s ! j"
  by (auto simp: step_def split: prod.splits sum.splits pc.splits)

lemma step_length: "length (tasks (step e rp tp n s i)) = length (tasks s)"
  by (auto simp: step_def split: prod.splits sum.splits pc.splits)

lemma step_licenses: "map fst (tasks (step e rp tp n s i)) = map fst (tasks s)"
  by (auto simp: step_def map_update list_update_same_conv split: prod.splits sum.splits pc.splits)

lemma run_licenses: "map fst (tasks (run e rp tp n sched s)) = map fst (tasks s)"
  by (induction sched arbitrary: s) (simp_all add: run_Nil run_Cons step_licenses)

lemma step_rank:
  assumes "chan_inv n s" "i < n"
  shows "min 4 (Suc (rank (snd (tasks s ! i)))) \<le> rank (snd (tasks (step e rp tp n s i) ! i))"
proof -
  have len: "length (tasks s) = n" using assms(1) by (simp add: chan_inv_def)
  obtain l p where lp: "tasks s ! i = (l, p)" by (cases "tasks s ! i")
  show ?thesis
  proof (cases p)
    case (Send r)
    have "length (chan s) < n" using sent_lt[OF assms] lp Send by simp
    then show ?thesis using lp Send len assms(2) by (simp add: step_def)
  qed (use lp len assms(2) in \<open>auto simp: step_def split: prod.splits sum.splits\<close>)
qed

lemma step_finished:
  "is_finished (snd (tasks s ! j)) \<Longrightarrow> is_finished (snd (tasks (step e rp tp n s i) ! j))"
proof (cases "j = i")
  case False
  then show "is_finished (snd (tasks s ! j)) \<Longrightarrow> ?thesis" by (simp add: step_other)
next
  case True
  assume "is_finished (snd (tasks s ! j))"
  then obtain l r where "tasks s ! i = (l, Finished r)"
    using True by (cases "tasks s ! i"; cases "snd (tasks s ! i)") auto
  then show ?thesis using True by (simp add: step_def)
qed

lemma run_finished:
  "is_finished (snd (tasks s ! j)) \<Longrightarrow> is_finished (snd (tasks (run e rp tp n sched s) ! j))"
  by (induction sched arbitrary: s) (simp_all add: run_Nil run_Cons step_finished)

lemma run_replicate_rank:
  assumes "chan_inv n s" "i < n"
  shows "min 4 (k + rank (snd (tasks s ! i))) \<le> rank (snd (tasks (run e rp tp n (replicate k i) s) ! i))"
  using assms
proof (induction k arbitrary: s)
  case 0
  then show ?case by (simp add: run_Nil)
next
  case (Suc k)
  have "min 4 (k + rank (snd (tasks (step e rp tp n s i) ! i)))
        \<le> rank (snd (tasks (run e rp tp n (replicate k i) (step e rp tp n s i)) ! i))"
    using Suc.IH[OF chan_inv_step[OF Suc.prems(1)] Suc.prems(2)] .
  moreover have "min 4 (Suc (rank (snd (tasks s ! i)))) \<le> rank (snd (tasks (step e rp tp n s i) ! i))"
    by (rule step_rank[OF Suc.prems])
  ultimately show ?case by (simp add: run_Cons)
qed

lemma rank_finished: "4 \<le> rank p \<Longrightarrow> is_finished p"
  by (cases p) simp_all

lemma run_four_finished:
  assumes "chan_inv n s" "i < n"
  shows "is_finished (snd (tasks (run e rp tp n (replicate 4 i) s) ! i))"
  using run_replicate_rank[OF assms, of 4 e rp tp] by (intro rank_finished) simp

lemma run_blocks_finished:
  assumes "chan_inv n s" "\<forall>i\<in>set js. i < n"
  shows "\<forall>i\<in>set js. is_finished (snd (tasks (run e rp tp n (concat (map (replicate 4) js)) s) ! i))"
  using assms
proof (induction js arbitrary: s)
  case Nil
  then show ?case by simp
next
  case (Cons j js)
  let ?s1 = "run e rp tp n (replicate 4 j) s"
  have inv1: "chan_inv n ?s1" by (rule chan_inv_run[OF Cons.prems(1)])
  have fin: "is_finished (snd (tasks ?s1 ! j))"
    using run_four_finished[OF Cons.prems(1)] Cons.prems(2) by simp
  have rest: "\<forall>i\<in>set js. is_finished (snd (tasks (run e rp tp n (concat (map (replicate 4) js)) ?s1) ! i))"
    using Cons.IH[OF inv1] Cons.prems(2) by simp
  show ?case
    using rest run_finished[OF fin] by (simp add: run_append)
qed

lemma fan_out_all_finished:
  assumes "chan_inv n s"
  shows "\<forall>i<n. is_finished (snd (tasks (run e rp tp n (sched @ fair_rest n) s) ! i))"
proof -
  have inv1: "chan_inv n (run e rp tp n sched s)" by (rule chan_inv_run[OF assms])
  show ?thesis
    using run_blocks_finished[OF inv1, of "[0..<n]" e rp tp]
    by (simp add: run_append fair_rest_def)
qed

lemma all_finished_wg:
  assumes "chan_inv n s" "\<forall>i<n. is_finished (snd (tasks s ! i))"
  shows "wg s = 0" and "length (chan s) = n"
    and "mset (chan s) = mset (map (\<lambda>t. sent_value (snd t)) (tasks s))"
proof -
  have len: "length (tasks s) = n" using assms(1) by (simp add: chan_inv_def)
  have allf: "\<forall>t\<in>set (tasks s). is_finished (snd t)"
  proof
    fix t assume "t \<in> set (tasks s)"
    then obtain i where "i < length (tasks s)" "tasks s ! i = t"
      by (auto simp: in_set_conv_nth)
    then show "is_finished (snd t)" using assms(2) len by auto
  qed
  have alls: "\<forall>t\<in>set (tasks s). has_sent (snd t)"
  proof
    fix t assume "t \<in> set (tasks s)"
    then have "is_finished (snd t)" using allf by blast
    then show "has_sent (snd t)" by (cases "snd t") simp_all
  qed
  have f1: "filter_mset (\<lambda>t. \<not> is_finished (snd t)) (mset (tasks s)) = {#}"
    using allf by simp
  have f2: "filter_mset (\<lambda>t. has_sent (snd t)) (mset (tasks s)) = mset (tasks s)"
    using alls by (simp add: filter_mset_eq_conv)
  show "wg s = 0" using assms(1) by (simp add: chan_inv_def f1)
  show m: "mset (chan s) = mset (map (\<lambda>t. sent_value (snd t)) (tasks s))"
    using assms(1) by (simp add: chan_inv_def f2)
  have "length (chan s) = size (mset (chan s))" by simp
  also have "\<dots> = n" unfolding m using len by simp
  finally show "length (chan s) = n" .
qed

section \<open>Paths of plain names\<close>





lemma dataPath_eq: "dataPath tmp = tmp @ [''data'']"
  by (simp add: dataPath_def DataDirectory_def Join_def clean_step_def)

lemma rawPath_eq: "rawPath tmp = tmp @ [''data'', ''raw'']"
  by (simp add: rawPath_def dataPath_eq RawDirectory_def Join_def clean_step_def)

lemma templatesPath_eq: "templatesPath tmp = tmp @ [''data'', ''templates'']"
  by (simp add: templatesPath_def dataPath_eq TemplatesDirectory_def Join_def clean_step_def)

lemma indexFilePath_eq: "indexFilePath tmp = tmp @ [''data'', ''index.json'']"
  by (simp add: indexFilePath_def dataPath_eq IndexFile_def Join_def clean_step_def)

section \<open>The join\<close>

lemma fan_out_inv: "chan_inv (length ls) (fan_out e rp tp ls fs)"
  unfolding fan_out_def by (rule chan_inv_run[OF chan_inv_spawn])

lemma fan_out_finished: "\<forall>i<length ls. is_finished (snd (tasks (fan_out e rp tp ls fs) ! i))"
  unfolding fan_out_def by (rule fan_out_all_finished[OF chan_inv_spawn])

lemma Wait_fan_out: "Wait (fan_out e rp tp ls fs) = Some (fan_out e rp tp ls fs)"
  using all_finished_wg(1)[OF fan_out_inv fan_out_finished] by (simp add: Wait_def)

lemma fan_out_licenses: "map fst (tasks (fan_out e rp tp ls fs)) = ls"
  by (simp add: fan_out_def run_licenses spawn_def comp_def)


text \<open>Only errors of \<open>writeLicense\<close> travel on the channel.\<close>

lemma writeLicense_raw_error:
  "writeLicense_raw e l rp f = (Inl err, f') \<Longrightarrow> from_writeLicense (Some err)"
  by (auto simp: writeLicense_raw_def Let_def split: option.splits prod.splits bool.splits)

lemma writeLicense_template_error:
  "writeLicense_template e l full tp f = (r, f') \<Longrightarrow> from_writeLicense r"
  by (auto simp: writeLicense_template_def Let_def split: option.splits prod.splits bool.splits)

lemma step_sent_values:
  assumes "\<forall>j<length (tasks s). from_writeLicense (sent_value (snd (tasks s ! j)))"
  shows "\<forall>j<length (tasks (step e rp tp n s i)).
           from_writeLicense (sent_value (snd (tasks (step e rp tp n s i) ! j)))"
proof (intro allI impI)
  fix j assume "j < length (tasks (step e rp tp n s i))"
  then have j: "j < length (tasks s)" by (simp add: step_length)
  show "from_writeLicense (sent_value (snd (tasks (step e rp tp n s i) ! j)))"
  proof (cases "j = i")
    case False
    then show ?thesis using assms j by (simp add: step_other)
  next
    case True
    obtain l p where lp: "tasks s ! i = (l, p)" by (cases "tasks s ! i")
    have old: "from_writeLicense (sent_value p)" using assms j True lp by auto
    show ?thesis
    proof (cases p)
      case Fetch
      then show ?thesis using True j lp
        by (auto simp: step_def split: prod.splits sum.splits dest: writeLicense_raw_error)
    next
      case (Template full)
      then show ?thesis using True j lp
        by (auto simp: step_def split: prod.splits dest: writeLicense_template_error)
    next
      case (Send r)
      then show ?thesis using True j lp old by (simp add: step_def)
    next
      case (Done r)
      then show ?thesis using True j lp old by (simp add: step_def)
    next
      case (Finished r)
      then show ?thesis using True j lp old by (simp add: step_def)
    qed
  qed
qed

lemma run_sent_values:
  "\<forall>j<length (tasks s). from_writeLicense (sent_value (snd (tasks s ! j))) \<Longrightarrow>
   \<forall>j<length (tasks (run e rp tp n sched s)).
     from_writeLicense (sent_value (snd (tasks (run e rp tp n sched s) ! j)))"
proof (induction sched arbitrary: s)
  case Nil
  then show ?case by (simp add: run_Nil)
next
  case (Cons i sched)
  show ?case
    unfolding run_Cons by (rule Cons.IH[OF step_sent_values[OF Cons.prems]])
qed

lemma chan_from_tasks:
  assumes "chan_inv n s" "r \<in> set (chan s)"
  shows "\<exists>j<length (tasks s). r = sent_value (snd (tasks s ! j))"
proof -
  have "mset (chan s) =
      image_mset (\<lambda>t. sent_value (snd t)) (filter_mset (\<lambda>t. has_sent (snd t)) (mset (tasks s)))"
    using assms(1) by (simp add: chan_inv_def)
  then have "set_mset (mset (chan s)) =
      set_mset (image_mset (\<lambda>t. sent_value (snd t)) (filter_mset (\<lambda>t. has_sent (snd t)) (mset (tasks s))))"
    by simp
  then have "set (chan s) = (\<lambda>t. sent_value (snd t)) ` {t \<in> set (tasks s). has_sent (snd t)}"
    by simp
  then obtain t where "t \<in> set (tasks s)" "r = sent_value (snd t)"
    using assms(2) by auto
  then show ?thesis by (auto simp: in_set_conv_nth)
qed

lemma fan_out_chan_errors:
  assumes "r \<in> set (chan (fan_out e rp tp ls fs))"
  shows "from_writeLicense r"
proof -
  have "\<forall>j<length (tasks (spawn ls fs)). from_writeLicense (sent_value (snd (tasks (spawn ls fs) ! j)))"
    by (simp add: spawn_def)
  then have "\<forall>j<length (tasks (fan_out e rp tp ls fs)).
      from_writeLicense (sent_value (snd (tasks (fan_out e rp tp ls fs) ! j)))"
    unfolding fan_out_def by (rule run_sent_values)
  then show ?thesis using chan_from_tasks[OF fan_out_inv assms] by auto
qed

lemma first_error_None: "first_error rs = None \<longleftrightarrow> (\<forall>r\<in>set rs. r = None)"
  by (induction rs rule: first_error.induct) auto

lemma first_error_Some: "first_error rs = Some err \<Longrightarrow> Some err \<in> set rs"
  by (induction rs rule: first_error.induct) auto

section \<open>The claims about the fan-out and about writeLicense\<close>




text \<open>
  C4. \<open>writeLicense\<close> takes its four steps in order. A failed fetch gives
  \<open>ErrFetchFailed\<close>; a failed decoding gives \<open>ErrDeserializeFailed\<close> with the
  fetched bytes; a failed write of the raw bytes gives \<open>ErrWriteFileFailed\<close> with the
  path of the raw file; a failed write of the template gives \<open>ErrWriteFileFailed\<close>
  with the path of the template file; and when all succeed the result is nil and the
  disk differs from the one before in these two files, which hold the fetched bytes and
  the rendered template.
\<close>

theorem writeLicense_steps:
  "(fetchFullInfo e l = None \<longrightarrow> writeLicense e l rp tp fs = (Some ErrFetchFailed, fs))
   \<and> (\<forall>content. fetchFullInfo e l = Some content \<longrightarrow> jsonToLicense e content = None
        \<longrightarrow> writeLicense e l rp tp fs = (Some (ErrDeserializeFailed content), fs))
   \<and> (\<forall>content full fs1. fetchFullInfo e l = Some content \<longrightarrow> jsonToLicense e content = Some full
        \<longrightarrow> WriteFile (write_fault e) (Join rp (Key l @ ''.json'')) content fs = (False, fs1)
        \<longrightarrow> writeLicense e l rp tp fs = (Some (ErrWriteFileFailed (Join rp (Key l @ ''.json''))), fs1))
   \<and> (\<forall>content full fs1 fs2. fetchFullInfo e l = Some content \<longrightarrow> jsonToLicense e content = Some full
        \<longrightarrow> WriteFile (write_fault e) (Join rp (Key l @ ''.json'')) content fs = (True, fs1)
        \<longrightarrow> WriteFile (write_fault e) (Join tp (Key l @ ''.tmpl'')) (textTemplateString e full) fs1
              = (False, fs2)
        \<longrightarrow> writeLicense e l rp tp fs = (Some (ErrWriteFileFailed (Join tp (Key l @ ''.tmpl''))), fs2))
   \<and> (\<forall>content full fs1 fs2. fetchFullInfo e l = Some content \<longrightarrow> jsonToLicense e content = Some full
        \<longrightarrow> WriteFile (write_fault e) (Join rp (Key l @ ''.json'')) content fs = (True, fs1)
        \<longrightarrow> WriteFile (write_fault e) (Join tp (Key l @ ''.tmpl'')) (textTemplateString e full) fs1
              = (True, fs2)
        \<longrightarrow> writeLicense e l rp tp fs = (None, fs2)
            \<and> fs2 = fs(Join rp (Key l @ ''.json'') \<mapsto> File content,
                       Join tp (Key l @ ''.tmpl'') \<mapsto> File (textTemplateString e full)))"
proof -
  have w: "\<And>flt p c f f'. WriteFile flt p c f = (True, f') \<Longrightarrow> f' = f(p \<mapsto> File c)"
    by (auto simp: WriteFile_def split: if_splits option.splits wfault.splits)
  show ?thesis
    by (auto simp: writeLicense_def writeLicense_raw_def writeLicense_template_def Let_def
        dest!: w)
qed

theorem writeLicense_steps_witness:
  "writeLicense demo_env_no_detail demo_mit [''raw''] [''templates''] demo_dirs
     = (Some ErrFetchFailed, demo_dirs)
   \<and> writeLicense demo_env_no_decode demo_mit [''raw''] [''templates''] demo_dirs
     = (Some (ErrDeserializeFailed ''mit''), demo_dirs)
   \<and> writeLicense (demo_env_open_fails [''raw'', ''mit.json'']) demo_mit [''raw''] [''templates''] demo_dirs
     = (Some (ErrWriteFileFailed [''raw'', ''mit.json'']), demo_dirs)
   \<and> writeLicense (demo_env_short_write [''templates'', ''mit.tmpl'']) demo_mit [''raw''] [''templates''] demo_dirs
     = (Some (ErrWriteFileFailed [''templates'', ''mit.tmpl'']),
        demo_dirs([''raw'', ''mit.json''] \<mapsto> File ''mit'', [''templates'', ''mit.tmpl''] \<mapsto> File ''T''))
   \<and> writeLicense demo_env demo_mit [''raw''] [''templates''] demo_dirs
     = (None, demo_dirs([''raw'', ''mit.json''] \<mapsto> File ''mit'',
                        [''templates'', ''mit.tmpl''] \<mapsto> File ''T:mit''))"
proof -
  let ?rf = "Join [''raw''] (Key demo_mit @ ''.json'')"
  let ?tf = "Join [''templates''] (Key demo_mit @ ''.tmpl'')"
  let ?e3 = "demo_env_open_fails [''raw'', ''mit.json'']"
  let ?e4 = "demo_env_short_write [''templates'', ''mit.tmpl'']"
  let ?fs1 = "demo_dirs([''raw'', ''mit.json''] \<mapsto> File ''mit'')"
  have k: "Key demo_mit = ''mit''" by (simp add: demo_mit_def demo_license_def)
  have j: "?rf = [''raw'', ''mit.json'']" "?tf = [''templates'', ''mit.tmpl'']"
    by (simp_all add: k Join_def clean_step_def)
  have c1: "writeLicense demo_env_no_detail demo_mit [''raw''] [''templates''] demo_dirs
     = (Some ErrFetchFailed, demo_dirs)"
  proof -
    have "fetchFullInfo demo_env_no_detail demo_mit = None"
      by (simp add: demo_env_no_detail_def)
    then show ?thesis
      using writeLicense_steps[of demo_env_no_detail demo_mit "[''raw'']" "[''templates'']" demo_dirs]
      by blast
  qed
  have c2: "writeLicense demo_env_no_decode demo_mit [''raw''] [''templates''] demo_dirs
     = (Some (ErrDeserializeFailed ''mit''), demo_dirs)"
  proof -
    have "fetchFullInfo demo_env_no_decode demo_mit = Some ''mit''"
      "jsonToLicense demo_env_no_decode ''mit'' = None"
      by (simp_all add: demo_env_no_decode_def demo_env_def demo_mit_def demo_license_def)
    then show ?thesis
      using writeLicense_steps[of demo_env_no_decode demo_mit "[''raw'']" "[''templates'']" demo_dirs]
      by blast
  qed
  have c3: "writeLicense ?e3 demo_mit [''raw''] [''templates''] demo_dirs
     = (Some (ErrWriteFileFailed ?rf), demo_dirs)"
  proof -
    have "fetchFullInfo ?e3 demo_mit = Some ''mit''"
      "jsonToLicense ?e3 ''mit'' = Some demo_mit"
      "WriteFile (write_fault ?e3) ?rf ''mit'' demo_dirs = (False, demo_dirs)"
      by (simp_all add: demo_env_open_fails_def demo_env_def WriteFile_def demo_dirs_def
          demo_mit_def demo_license_def Join_def clean_step_def)
    then show ?thesis
      using writeLicense_steps[of ?e3 demo_mit "[''raw'']" "[''templates'']" demo_dirs]
      by blast
  qed
  have c4: "writeLicense ?e4 demo_mit [''raw''] [''templates''] demo_dirs
     = (Some (ErrWriteFileFailed ?tf), ?fs1(?tf \<mapsto> File ''T''))"
  proof -
    have "fetchFullInfo ?e4 demo_mit = Some ''mit''"
      "jsonToLicense ?e4 ''mit'' = Some demo_mit"
      "WriteFile (write_fault ?e4) ?rf ''mit'' demo_dirs = (True, ?fs1)"
      "WriteFile (write_fault ?e4) ?tf (textTemplateString ?e4 demo_mit) ?fs1
         = (False, ?fs1(?tf \<mapsto> File ''T''))"
      by (simp_all add: demo_env_short_write_def demo_env_def WriteFile_def demo_dirs_def
          demo_mit_def demo_license_def Join_def clean_step_def)
    then show ?thesis
      using writeLicense_steps[of ?e4 demo_mit "[''raw'']" "[''templates'']" demo_dirs]
      by blast
  qed
  have c5: "writeLicense demo_env demo_mit [''raw''] [''templates''] demo_dirs
     = (None, ?fs1(?tf \<mapsto> File ''T:mit''))"
  proof -
    have "fetchFullInfo demo_env demo_mit = Some ''mit''"
      "jsonToLicense demo_env ''mit'' = Some demo_mit"
      "WriteFile (write_fault demo_env) ?rf ''mit'' demo_dirs = (True, ?fs1)"
      "WriteFile (write_fault demo_env) ?tf (textTemplateString demo_env demo_mit) ?fs1
         = (True, ?fs1(?tf \<mapsto> File ''T:mit''))"
      by (simp_all add: demo_env_def WriteFile_def demo_dirs_def demo_mit_def demo_license_def
          Join_def clean_step_def)
    then show ?thesis
      using writeLicense_steps[of demo_env demo_mit "[''raw'']" "[''templates'']" demo_dirs]
      by blast
  qed
  show ?thesis using c1 c2 c3 c4 c5 unfolding j by blast
qed


section \<open>The disk outside the temporary directory\<close>

lemma wf_below:
  assumes "wf_fs fs" "fs p = None" "prefix p q"
  shows "fs q = None"
proof -
  obtain r where q: "q = p @ r" using assms(3) by (auto simp: prefix_def)
  have "fs (p @ r) = None"
  proof (induction r rule: rev_induct)
    case Nil
    then show ?case using assms(2) by simp
  next
    case (snoc x xs)
    show ?case
    proof (rule ccontr)
      assume "fs (p @ xs @ [x]) \<noteq> None"
      then have "fs (butlast (p @ xs @ [x])) = Some Dir"
        using assms(1) unfolding wf_fs_def by blast
      then have "fs (p @ xs) = Some Dir" by (simp add: butlast_append)
      then show False using snoc by simp
    qed
  qed
  then show ?thesis using q by simp
qed

lemma wf_above:
  assumes "wf_fs fs" "fs q \<noteq> None" "strict_prefix p q"
  shows "fs p = Some Dir"
proof -
  obtain zs where zs: "q = p @ zs" "zs \<noteq> []"
    using assms(3) by (auto simp: strict_prefix_def prefix_def)
  then obtain x r where q: "q = p @ x # r" by (cases zs) auto
  have pq: "prefix (p @ [x]) q" using q by (simp add: prefix_def)
  have "fs (p @ [x]) \<noteq> None"
  proof
    assume "fs (p @ [x]) = None"
    from wf_below[OF assms(1) this pq] show False using assms(2) by simp
  qed
  then have "fs (butlast (p @ [x])) = Some Dir"
    using assms(1) unfolding wf_fs_def by blast
  then show ?thesis by simp
qed

lemma TempDir_Some:
  assumes "TempDir cands fs = Some (tmp, fs1)"
  shows "fs tmp = None" "fs1 = fs(tmp \<mapsto> Dir)" "tmp \<noteq> []" "fs (butlast tmp) = Some Dir"
proof -
  obtain p where f: "find (\<lambda>p. fs p = None) cands = Some p"
    using assms by (auto simp: TempDir_def split: option.splits)
  then have n: "fs p = None" by (auto simp: find_Some_iff)
  have "p = tmp \<and> fs1 = fs(tmp \<mapsto> Dir) \<and> tmp \<noteq> [] \<and> fs (butlast tmp) = Some Dir"
    using assms f by (auto simp: TempDir_def split: if_splits)
  then show "fs tmp = None" "fs1 = fs(tmp \<mapsto> Dir)" "tmp \<noteq> []" "fs (butlast tmp) = Some Dir"
    using n by auto
qed

lemma wf_fs_mkdir:
  assumes "wf_fs fs" "p \<noteq> []" "fs (butlast p) = Some Dir" "fs p = None"
  shows "wf_fs (fs(p \<mapsto> Dir))"
  unfolding wf_fs_def
proof (intro conjI allI impI)
  show "(fs(p \<mapsto> Dir)) [] = Some Dir" using assms(1,2) by (simp add: wf_fs_def)
next
  fix q assume q: "q \<noteq> []" "(fs(p \<mapsto> Dir)) q \<noteq> None"
  show "(fs(p \<mapsto> Dir)) (butlast q) = Some Dir"
  proof (cases "q = p")
    case True
    have "butlast p \<noteq> p" using assms(2) by (metis append_butlast_last_id self_append_conv snoc_eq_iff_butlast list.distinct(1))
    then show ?thesis using True assms(3) by simp
  next
    case False
    then have "fs q \<noteq> None" using q(2) by simp
    then have "fs (butlast q) = Some Dir" using assms(1) q(1) unfolding wf_fs_def by blast
    then show ?thesis by simp
  qed
qed

lemma wf_fs_write:
  assumes "wf_fs fs" "p \<noteq> []" "fs (butlast p) = Some Dir" "fs p \<noteq> Some Dir"
  shows "wf_fs (fs(p \<mapsto> File c))"
  unfolding wf_fs_def
proof (intro conjI allI impI)
  show "(fs(p \<mapsto> File c)) [] = Some Dir" using assms(1,2) by (simp add: wf_fs_def)
next
  fix q assume q: "q \<noteq> []" "(fs(p \<mapsto> File c)) q \<noteq> None"
  have bp: "butlast p \<noteq> p" using assms(2) by (metis append_butlast_last_id self_append_conv snoc_eq_iff_butlast list.distinct(1))
  show "(fs(p \<mapsto> File c)) (butlast q) = Some Dir"
  proof (cases "q = p")
    case True
    then show ?thesis using bp assms(3) by simp
  next
    case False
    then have "fs q \<noteq> None" using q(2) by simp
    then have d: "fs (butlast q) = Some Dir" using assms(1) q(1) unfolding wf_fs_def by blast
    then have "butlast q \<noteq> p" using assms(4) by auto
    then show ?thesis using d by simp
  qed
qed

text \<open>What \<open>mkdirs\<close> changes: it turns missing nodes on the way into directories.\<close>

lemma mkdirs_changes:
  assumes "mkdirs flt cur cs fs = (b, fs')"
  shows "\<forall>q. fs' q \<noteq> fs q \<longrightarrow> fs q = None \<and> fs' q = Some Dir \<and> strict_prefix cur q \<and> prefix q (cur @ cs)"
  using assms
proof (induction flt cur cs fs arbitrary: b fs' rule: mkdirs.induct)
  case (1 flt cur fs)
  then show ?case by simp
next
  case (2 flt cur c cs fs)
  show ?case
  proof (cases "fs (cur @ [c])")
    case None
    show ?thesis
    proof (cases "flt (cur @ [c])")
      case True
      then show ?thesis using "2.prems" None by simp
    next
      case False
      have r: "mkdirs flt (cur @ [c]) cs (fs(cur @ [c] \<mapsto> Dir)) = (b, fs')"
        using "2.prems" None False by simp
      note ih = "2.IH"(1)[OF None False r]
      show ?thesis
      proof (intro allI impI)
        fix q assume d: "fs' q \<noteq> fs q"
        show "fs q = None \<and> fs' q = Some Dir \<and> strict_prefix cur q \<and> prefix q (cur @ c # cs)"
        proof (cases "fs' q = (fs(cur @ [c] \<mapsto> Dir)) q")
          case True
          then have "q = cur @ [c]" using d by (auto split: if_splits)
          then show ?thesis using True None by (auto simp: strict_prefix_def prefix_def)
        next
          case False
          then have "(fs(cur @ [c] \<mapsto> Dir)) q = None \<and> fs' q = Some Dir
              \<and> strict_prefix (cur @ [c]) q \<and> prefix q ((cur @ [c]) @ cs)"
            using ih by blast
          then show ?thesis
            by (auto split: if_splits simp: strict_prefix_def prefix_def)
        qed
      qed
    qed
  next
    case (Some nd)
    show ?thesis
    proof (cases nd)
      case Dir
      have r: "mkdirs flt (cur @ [c]) cs fs = (b, fs')" using "2.prems" Some Dir by simp
      have "\<forall>q. fs' q \<noteq> fs q \<longrightarrow> fs q = None \<and> fs' q = Some Dir
          \<and> strict_prefix (cur @ [c]) q \<and> prefix q ((cur @ [c]) @ cs)"
        using "2.IH"(2)[OF Some Dir r] .
      then show ?thesis by (auto simp: strict_prefix_def prefix_def)
    next
      case (File x)
      then show ?thesis using "2.prems" Some by simp
    qed
  qed
qed

lemma mkdirs_success:
  assumes "mkdirs flt cur cs fs = (True, fs')" "fs cur = Some Dir"
  shows "fs' (cur @ cs) = Some Dir"
  using assms
proof (induction flt cur cs fs arbitrary: fs' rule: mkdirs.induct)
  case (1 flt cur fs)
  then show ?case by simp
next
  case (2 flt cur c cs fs)
  show ?case
  proof (cases "fs (cur @ [c])")
    case None
    then have nf: "\<not> flt (cur @ [c])" using "2.prems"(1) by (auto split: if_splits)
    have r: "mkdirs flt (cur @ [c]) cs (fs(cur @ [c] \<mapsto> Dir)) = (True, fs')"
      using "2.prems"(1) None nf by simp
    show ?thesis using "2.IH"(1)[OF None nf r] by simp
  next
    case (Some nd)
    then obtain "nd = Dir" using "2.prems"(1) by (cases nd) auto
    then have d: "fs (cur @ [c]) = Some Dir" using Some by simp
    have r: "mkdirs flt (cur @ [c]) cs fs = (True, fs')" using "2.prems"(1) d by simp
    show ?thesis using "2.IH"(2)[OF Some \<open>nd = Dir\<close> r d] by simp
  qed
qed

section \<open>The disk outside the temporary directory, continued\<close>

lemma MkdirAll_outside:
  assumes "wf_fs f" "f tmp = Some Dir" "prefix tmp p" "MkdirAll flt p f = (b, f')" "\<not> prefix tmp q"
  shows "f' q = f q"
proof (rule ccontr)
  assume d: "f' q \<noteq> f q"
  have ch: "f q = None \<and> f' q = Some Dir \<and> strict_prefix [] q \<and> prefix q ([] @ p)"
    using mkdirs_changes[OF assms(4)[unfolded MkdirAll_def]] d by blast
  then have "prefix q p" by simp
  then have "prefix tmp q \<or> prefix q tmp"
    using assms(3) prefix_same_cases by blast
  then have "strict_prefix q tmp" using assms(5) by (auto simp: strict_prefix_def)
  then have "f q = Some Dir" using wf_above[OF assms(1)] assms(2) by auto
  then show False using ch by simp
qed

lemma mkdirs_keeps:
  assumes "mkdirs flt cur cs f = (b, f')" "f q \<noteq> None"
  shows "f' q = f q"
proof (rule ccontr)
  assume "f' q \<noteq> f q"
  then have "f q = None" using mkdirs_changes[OF assms(1)] by simp
  then show False using assms(2) by simp
qed

lemma wf_mkdirs:
  assumes "wf_fs f" "f cur = Some Dir" "mkdirs flt cur cs f = (b, f')"
  shows "wf_fs f'"
  using assms
proof (induction flt cur cs f arbitrary: b f' rule: mkdirs.induct)
  case (1 flt cur fs)
  then show ?case by simp
next
  case (2 flt cur c cs fs)
  show ?case
  proof (cases "fs (cur @ [c])")
    case None
    show ?thesis
    proof (cases "flt (cur @ [c])")
      case True
      then show ?thesis using "2.prems" None by simp
    next
      case False
      have r: "mkdirs flt (cur @ [c]) cs (fs(cur @ [c] \<mapsto> Dir)) = (b, f')"
        using "2.prems"(3) None False by simp
      have w: "wf_fs (fs(cur @ [c] \<mapsto> Dir))"
        by (rule wf_fs_mkdir[OF "2.prems"(1)]) (use "2.prems"(2) None in simp_all)
      show ?thesis using "2.IH"(1)[OF None False w _ r] by simp
    qed
  next
    case (Some nd)
    show ?thesis
    proof (cases nd)
      case Dir
      have r: "mkdirs flt (cur @ [c]) cs fs = (b, f')" using "2.prems"(3) Some Dir by simp
      show ?thesis using "2.IH"(2)[OF Some Dir "2.prems"(1) _ r] Some Dir by simp
    next
      case (File x)
      then show ?thesis using "2.prems" Some by simp
    qed
  qed
qed

lemma wf_MkdirAll: "wf_fs f \<Longrightarrow> MkdirAll flt p f = (b, f') \<Longrightarrow> wf_fs f'"
  unfolding MkdirAll_def by (rule wf_mkdirs) (simp_all add: wf_fs_def)

lemma MkdirAll_keeps: "MkdirAll flt p f = (b, f') \<Longrightarrow> f q \<noteq> None \<Longrightarrow> f' q = f q"
  unfolding MkdirAll_def by (rule mkdirs_keeps)

lemma MkdirAll_success: "wf_fs f \<Longrightarrow> MkdirAll flt p f = (True, f') \<Longrightarrow> f' p = Some Dir"
  unfolding MkdirAll_def using mkdirs_success[of flt "[]" p f f'] by (simp add: wf_fs_def)

lemma WriteFile_other: "WriteFile flt p c f = (b, f') \<Longrightarrow> q \<noteq> p \<Longrightarrow> f' q = f q"
  by (auto simp: WriteFile_def split: if_splits option.splits wfault.splits)

lemma WriteFile_True: "WriteFile flt p c f = (True, f') \<Longrightarrow> f' = f(p \<mapsto> File c)"
  by (auto simp: WriteFile_def split: if_splits option.splits wfault.splits)

lemma WriteFile_True_parent:
  "WriteFile flt p c f = (True, f') \<Longrightarrow> p \<noteq> [] \<and> f (butlast p) = Some Dir \<and> f p \<noteq> Some Dir"
  by (auto simp: WriteFile_def split: if_splits option.splits wfault.splits)

lemma wf_WriteFile:
  assumes "wf_fs f" "WriteFile flt p c f = (b, f')"
  shows "wf_fs f'"
proof (cases "p = [] \<or> f (butlast p) \<noteq> Some Dir \<or> f p = Some Dir")
  case True
  then show ?thesis using assms by (auto simp: WriteFile_def)
next
  case False
  then have "\<And>x. wf_fs (f(p \<mapsto> File x))" using wf_fs_write[OF assms(1)] by blast
  then show ?thesis using assms False
    by (auto simp: WriteFile_def split: if_splits option.splits wfault.splits)
qed

lemma make_paths_staging:
  assumes "wf_fs f" "f tmp = Some Dir"
    "make_paths e [rawPath tmp, templatesPath tmp] f = (r, f')"
  shows "wf_fs f'" "f' tmp = Some Dir" "\<forall>q. \<not> prefix tmp q \<longrightarrow> f' q = f q"
    "r = None \<longrightarrow> f' (rawPath tmp) = Some Dir \<and> f' (templatesPath tmp) = Some Dir"
proof -
  obtain b1 f1 where m1: "MkdirAll (mkdir_fault e) (rawPath tmp) f = (b1, f1)"
    by (cases "MkdirAll (mkdir_fault e) (rawPath tmp) f")
  obtain b2 f2 where m2: "MkdirAll (mkdir_fault e) (templatesPath tmp) f1 = (b2, f2)"
    by (cases "MkdirAll (mkdir_fault e) (templatesPath tmp) f1")
  have w1: "wf_fs f1" by (rule wf_MkdirAll[OF assms(1) m1])
  have w2: "wf_fs f2" by (rule wf_MkdirAll[OF w1 m2])
  have t1: "f1 tmp = Some Dir" using MkdirAll_keeps[OF m1, of tmp] assms(2) by simp
  have t2: "f2 tmp = Some Dir" using MkdirAll_keeps[OF m2, of tmp] t1 by simp
  have o1: "\<forall>q. \<not> prefix tmp q \<longrightarrow> f1 q = f q"
    using MkdirAll_outside[OF assms(1,2) _ m1] by (simp add: rawPath_eq)
  have o2: "\<forall>q. \<not> prefix tmp q \<longrightarrow> f2 q = f1 q"
    using MkdirAll_outside[OF w1 t1 _ m2] by (simp add: templatesPath_eq)
  have res: "(r, f') = (if b1 then (if b2 then (None, f2) else (Some (templatesPath tmp), f2))
                        else (Some (rawPath tmp), f1))"
    using assms(3) m1 m2 by (auto split: bool.splits)
  show "wf_fs f'" using res w1 w2 by (auto split: if_splits)
  show "f' tmp = Some Dir" using res t1 t2 by (auto split: if_splits)
  show "\<forall>q. \<not> prefix tmp q \<longrightarrow> f' q = f q" using res o1 o2 by (auto split: if_splits)
  show "r = None \<longrightarrow> f' (rawPath tmp) = Some Dir \<and> f' (templatesPath tmp) = Some Dir"
  proof
    assume "r = None"
    then have b: "b1" "b2" "f' = f2" using res by (auto split: if_splits)
    have "f1 (rawPath tmp) = Some Dir" using MkdirAll_success[OF assms(1)] m1 b(1) by simp
    then have "f2 (rawPath tmp) = Some Dir" using MkdirAll_keeps[OF m2, of "rawPath tmp"] by simp
    moreover have "f2 (templatesPath tmp) = Some Dir" using MkdirAll_success[OF w1] m2 b(2) by simp
    ultimately show "f' (rawPath tmp) = Some Dir \<and> f' (templatesPath tmp) = Some Dir"
      using b(3) by simp
  qed
qed

lemma fill_staging_outside:
  assumes "wf_fs f" "f tmp = Some Dir" "fill_staging e tmp f = (r, f')"
  shows "wf_fs f'" "f' tmp = Some Dir" "\<forall>q. \<not> prefix tmp q \<longrightarrow> f' q = f q"
proof -
  obtain r1 f1 where m: "make_paths e [rawPath tmp, templatesPath tmp] f = (r1, f1)"
    by (cases "make_paths e [rawPath tmp, templatesPath tmp] f")
  note mp = make_paths_staging[OF assms(1,2) m]
  have ix: "prefix tmp (indexFilePath tmp)" "indexFilePath tmp \<noteq> tmp"
    by (simp_all add: indexFilePath_eq)
  have "wf_fs f' \<and> f' tmp = Some Dir \<and> (\<forall>q. \<not> prefix tmp q \<longrightarrow> f' q = f q)"
  proof (cases "r1 = None \<and> fetchIndex e \<noteq> None")
    case False
    then have "f' = f1" using assms(3) m
      by (auto simp: fill_staging_def split: option.splits)
    then show ?thesis using mp by simp
  next
    case True
    then obtain ser where ser: "fetchIndex e = Some ser" by auto
    obtain b2 f2 where w: "WriteFile (write_fault e) (indexFilePath tmp) ser f1 = (b2, f2)"
      by (cases "WriteFile (write_fault e) (indexFilePath tmp) ser f1")
    have "f' = f2" using assms(3) m True ser w
      by (auto simp: fill_staging_def split: option.splits bool.splits)
    moreover have "wf_fs f2" by (rule wf_WriteFile[OF mp(1) w])
    moreover have "f2 tmp = Some Dir" using WriteFile_other[OF w, of tmp] ix(2) mp(2) by simp
    moreover have "\<forall>q. \<not> prefix tmp q \<longrightarrow> f2 q = f q"
    proof (intro allI impI)
      fix q assume q: "\<not> prefix tmp q"
      then have "q \<noteq> indexFilePath tmp" using ix(1) by auto
      then show "f2 q = f q" using WriteFile_other[OF w] mp(3) q by simp
    qed
    ultimately show ?thesis by simp
  qed
  then show "wf_fs f'" "f' tmp = Some Dir" "\<forall>q. \<not> prefix tmp q \<longrightarrow> f' q = f q" by simp_all
qed

text \<open>A goroutine writes its two files and nothing else.\<close>

lemma writeLicense_raw_cases:
  assumes "writeLicense_raw e l rp f = (x, f')"
  obtains "f' = f"
  | c b where "WriteFile (write_fault e) (Join rp (Key l @ ''.json'')) c f = (b, f')"
proof (cases "fetchFullInfo e l")
  case None
  then have "f' = f" using assms by (simp add: writeLicense_raw_def)
  then show ?thesis by (rule that(1))
next
  case (Some c)
  show ?thesis
  proof (cases "jsonToLicense e c")
    case None
    then have "f' = f" using assms Some by (simp add: writeLicense_raw_def)
    then show ?thesis by (rule that(1))
  next
    case (Some full)
    obtain b f1 where w: "WriteFile (write_fault e) (Join rp (Key l @ ''.json'')) c f = (b, f1)"
      by (cases "WriteFile (write_fault e) (Join rp (Key l @ ''.json'')) c f")
    have "f' = f1" using assms \<open>fetchFullInfo e l = Some c\<close> Some w
      by (cases b) (simp_all add: writeLicense_raw_def)
    then show ?thesis using w that(2) by simp
  qed
qed

lemma writeLicense_template_cases:
  assumes "writeLicense_template e l full tp f = (x, f')"
  obtains b where "WriteFile (write_fault e) (Join tp (Key l @ ''.tmpl'')) (textTemplateString e full) f = (b, f')"
proof -
  obtain b f1 where w: "WriteFile (write_fault e) (Join tp (Key l @ ''.tmpl'')) (textTemplateString e full) f = (b, f1)"
    by (cases "WriteFile (write_fault e) (Join tp (Key l @ ''.tmpl'')) (textTemplateString e full) f")
  have "f' = f1" using assms w by (cases b) (simp_all add: writeLicense_template_def)
  then show ?thesis using w that by simp
qed



lemma wf_writeLicense_raw:
  assumes "wf_fs f" "writeLicense_raw e l rp f = (x, f')"
  shows "wf_fs f'"
  using assms(2)
proof (cases rule: writeLicense_raw_cases)
  case 1
  then show ?thesis using assms(1) by simp
next
  case (2 c b)
  then show ?thesis using wf_WriteFile[OF assms(1)] by blast
qed

lemma wf_writeLicense_template:
  assumes "wf_fs f" "writeLicense_template e l full tp f = (x, f')"
  shows "wf_fs f'"
  using assms(2)
proof (cases rule: writeLicense_template_cases)
  case (1 b)
  then show ?thesis using wf_WriteFile[OF assms(1)] by blast
qed


lemma wf_step:
  assumes "wf_fs (cfs s)"
  shows "wf_fs (cfs (step e rp tp n s i))"
proof (cases "i < length (tasks s)")
  case False
  then show ?thesis using assms by (simp add: step_def)
next
  case True
  obtain l p where lp: "tasks s ! i = (l, p)" by (cases "tasks s ! i")
  show ?thesis
  proof (cases p)
    case Fetch
    obtain x f where w: "writeLicense_raw e l rp (cfs s) = (x, f)"
      by (cases "writeLicense_raw e l rp (cfs s)")
    have "cfs (step e rp tp n s i) = f"
      using True lp Fetch w by (auto simp: step_def split: sum.splits)
    then show ?thesis using wf_writeLicense_raw[OF assms w] by simp
  next
    case (Template full)
    obtain x f where w: "writeLicense_template e l full tp (cfs s) = (x, f)"
      by (cases "writeLicense_template e l full tp (cfs s)")
    have "cfs (step e rp tp n s i) = f"
      using True lp Template w by (auto simp: step_def)
    then show ?thesis using wf_writeLicense_template[OF assms w] by simp
  qed (use True lp assms in \<open>auto simp: step_def split: if_splits\<close>)
qed

lemma wf_run: "wf_fs (cfs s) \<Longrightarrow> wf_fs (cfs (run e rp tp n sched s))"
  by (induction sched arbitrary: s) (simp_all add: run_Nil run_Cons wf_step)



lemma wf_fan_out: "wf_fs f \<Longrightarrow> wf_fs (cfs (fan_out e rp tp ls f))"
  unfolding fan_out_def by (rule wf_run) (simp add: spawn_def)


lemma cleanup_restores:
  assumes "wf_fs f" "f tmp = None" "\<forall>q. \<not> prefix tmp q \<longrightarrow> F q = f q"
  shows "cleanup tmp F = f"
proof
  fix q
  show "cleanup tmp F q = f q"
    using assms(3) wf_below[OF assms(1,2), of q] by (simp add: cleanup_def RemoveAll_def)
qed

lemma cleanup_gone: "prefix tmp q \<Longrightarrow> cleanup tmp F q = None"
  by (simp add: cleanup_def RemoveAll_def)

lemma cleanup_outside: "\<not> prefix tmp q \<Longrightarrow> cleanup tmp F q = F q"
  by (simp add: cleanup_def RemoveAll_def)

section \<open>The claims about Bootstrap\<close>

lemma refresh_eq:
  "refresh e home tmp ls f =
     Some (case first_error (chan (fan_out e (rawPath tmp) (templatesPath tmp) ls f)) of
             Some err \<Rightarrow> (Some err, cfs (fan_out e (rawPath tmp) (templatesPath tmp) ls f))
           | None \<Rightarrow> commit e home tmp (cfs (fan_out e (rawPath tmp) (templatesPath tmp) ls f)))"
  by (simp add: refresh_def Wait_fan_out split: option.splits)

lemma Bootstrap_staged:
  assumes "setLogLevel e args = Inr lv" "home_dir e = Some home"
    "TempDir (temp_candidates e) fs = Some (tmp, fs1)"
  shows "Bootstrap e args fs =
     (case fill_staging e tmp fs1 of
        (Inl err, fs2) \<Rightarrow> Some (Some err, cleanup tmp fs2)
      | (Inr ls, fs2) \<Rightarrow>
          (case first_error (chan (fan_out e (rawPath tmp) (templatesPath tmp) ls fs2)) of
             Some err \<Rightarrow> Some (Some err, cleanup tmp (cfs (fan_out e (rawPath tmp) (templatesPath tmp) ls fs2)))
           | None \<Rightarrow> Some (fst (commit e home tmp (cfs (fan_out e (rawPath tmp) (templatesPath tmp) ls fs2))),
                          cleanup tmp (snd (commit e home tmp (cfs (fan_out e (rawPath tmp) (templatesPath tmp) ls fs2)))))))"
  by (simp add: Bootstrap_def assms refresh_eq split: prod.splits sum.splits option.splits)

lemma commit_eq:
  "commit e home tmp f =
     (if remove_fault e (realLicensePath e home) = Some PermissionError
      then (Some (ErrRemovePathFailed (realLicensePath e home)), f)
      else (case CopyTree (copy_fault e) (mkdir_fault e) tmp (realLicensePath e home)
                   (snd (RemoveAll (remove_fault e) (realLicensePath e home) f)) of
              (b, f2) \<Rightarrow> (if b then None else Some (ErrCopyTreeFailed tmp (realLicensePath e home)), f2)))"
proof (cases "remove_fault e (realLicensePath e home)")
  case None
  then show ?thesis
    by (auto simp: commit_def RemoveAll_def split: prod.splits bool.splits)
next
  case (Some x)
  then show ?thesis
    by (cases x) (auto simp: commit_def RemoveAll_def split: prod.splits bool.splits)
qed

text \<open>
  C9. When the index has been fetched and writing it to the index file of the
  temporary directory fails, \<open>Bootstrap\<close> returns \<open>ErrCreateDirFailed\<close> with the
  path of the index file, which is not the error \<open>ErrWriteFileFailed\<close> of that path;
  no goroutine runs and nothing is committed: the disk it leaves is that of the failed
  write without the temporary directory, which on a well-formed disk is the disk
  before the call.
\<close>

theorem index_write_failure:
  assumes "setLogLevel e args = Inr lv" "home_dir e = Some home"
    "TempDir (temp_candidates e) fs = Some (tmp, fs1)"
    "make_paths e [rawPath tmp, templatesPath tmp] fs1 = (None, fs2)"
    "fetchIndex e = Some serialized"
    "WriteFile (write_fault e) (indexFilePath tmp) serialized fs2 = (False, fs3)"
  shows "Bootstrap e args fs = Some (Some (ErrCreateDirFailed (indexFilePath tmp)), cleanup tmp fs3)
    \<and> ErrCreateDirFailed (indexFilePath tmp) \<noteq> ErrWriteFileFailed (indexFilePath tmp)
    \<and> indexFilePath tmp = tmp @ [''data'', ''index.json'']
    \<and> (wf_fs fs \<longrightarrow> cleanup tmp fs3 = fs)"
proof -
  have fill: "fill_staging e tmp fs1 = (Inl (ErrCreateDirFailed (indexFilePath tmp)), fs3)"
    using assms(4,5,6) by (simp add: fill_staging_def)
  have b: "Bootstrap e args fs = Some (Some (ErrCreateDirFailed (indexFilePath tmp)), cleanup tmp fs3)"
    by (simp add: Bootstrap_staged[OF assms(1,2,3)] fill)
  have r: "cleanup tmp fs3 = fs" if wf: "wf_fs fs"
  proof -
    note t = TempDir_Some[OF assms(3)]
    have w1: "wf_fs fs1" unfolding t(2) by (rule wf_fs_mkdir[OF wf t(3,4,1)])
    have d1: "fs1 tmp = Some Dir" by (simp add: t(2))
    have "\<forall>q. \<not> prefix tmp q \<longrightarrow> fs3 q = fs1 q"
      by (rule fill_staging_outside(3)[OF w1 d1 fill])
    then have "\<forall>q. \<not> prefix tmp q \<longrightarrow> fs3 q = fs q" by (auto simp: t(2))
    then show ?thesis by (rule cleanup_restores[OF wf t(1)])
  qed
  show ?thesis using b r by (simp add: indexFilePath_eq)
qed



text \<open>
  C8. The commit is reached only when no goroutine posted a failure: otherwise
  \<open>Bootstrap\<close> returns the first failure of the channel and commits nothing. When
  every posted result is nil, the old cache is removed; a permission error of the
  removal ends the call with \<open>ErrRemovePathFailed\<close>, and a cache that does not exist
  is no error; then the temporary directory is copied to the place of the cache, and a
  failed copy ends the call with \<open>ErrCopyTreeFailed\<close>; a successful copy ends it with
  nil. On every one of these returns the temporary directory is removed afterwards.
\<close>

theorem commit_step:
  assumes "setLogLevel e args = Inr lv" "home_dir e = Some home"
    "TempDir (temp_candidates e) fs = Some (tmp, fs1)"
    "fill_staging e tmp fs1 = (Inr ls, fs2)"
  shows
    "(first_error (chan (fan_out e (rawPath tmp) (templatesPath tmp) ls fs2)) \<noteq> None \<longrightarrow>
        Bootstrap e args fs
          = Some (first_error (chan (fan_out e (rawPath tmp) (templatesPath tmp) ls fs2)),
                  cleanup tmp (cfs (fan_out e (rawPath tmp) (templatesPath tmp) ls fs2))))
     \<and> ((\<forall>r\<in>set (chan (fan_out e (rawPath tmp) (templatesPath tmp) ls fs2)). r = None) \<longrightarrow>
          (remove_fault e (realLicensePath e home) = Some PermissionError \<longrightarrow>
             Bootstrap e args fs
               = Some (Some (ErrRemovePathFailed (realLicensePath e home)),
                       cleanup tmp (cfs (fan_out e (rawPath tmp) (templatesPath tmp) ls fs2))))
        \<and> (remove_fault e (realLicensePath e home) = None \<longrightarrow>
             RemoveAll (remove_fault e) (realLicensePath e home)
                 (cfs (fan_out e (rawPath tmp) (templatesPath tmp) ls fs2))
               = (None, (\<lambda>q. if prefix (realLicensePath e home) q then None
                              else cfs (fan_out e (rawPath tmp) (templatesPath tmp) ls fs2) q)))
        \<and> (remove_fault e (realLicensePath e home) \<noteq> Some PermissionError \<longrightarrow>
             (\<forall>b f2. CopyTree (copy_fault e) (mkdir_fault e) tmp (realLicensePath e home)
                        (snd (RemoveAll (remove_fault e) (realLicensePath e home)
                               (cfs (fan_out e (rawPath tmp) (templatesPath tmp) ls fs2)))) = (b, f2)
                \<longrightarrow> Bootstrap e args fs
                      = Some (if b then None
                              else Some (ErrCopyTreeFailed tmp (realLicensePath e home)),
                              cleanup tmp f2))))
     \<and> (\<forall>r F q. Bootstrap e args fs = Some (r, F) \<longrightarrow> prefix tmp q \<longrightarrow> F q = None)"
proof -
  let ?S = "fan_out e (rawPath tmp) (templatesPath tmp) ls fs2"
  let ?real = "realLicensePath e home"
  note B = Bootstrap_staged[OF assms(1,2,3), unfolded assms(4), simplified]
  have p1: "first_error (chan ?S) \<noteq> None \<longrightarrow>
      Bootstrap e args fs = Some (first_error (chan ?S), cleanup tmp (cfs ?S))"
    by (auto simp: B)
  have p2: "Bootstrap e args fs = Some (Some (ErrRemovePathFailed ?real), cleanup tmp (cfs ?S))"
    if "\<forall>r\<in>set (chan ?S). r = None" "remove_fault e ?real = Some PermissionError"
  proof -
    have "first_error (chan ?S) = None" using that(1) by (simp add: first_error_None)
    then show ?thesis using that(2) by (simp add: B commit_eq)
  qed
  have p3: "remove_fault e ?real = None \<longrightarrow>
      RemoveAll (remove_fault e) ?real (cfs ?S)
        = (None, (\<lambda>q. if prefix ?real q then None else cfs ?S q))"
    by (simp add: RemoveAll_def)
  have p4: "Bootstrap e args fs
        = Some (if b then None else Some (ErrCopyTreeFailed tmp ?real), cleanup tmp f2)"
    if "\<forall>r\<in>set (chan ?S). r = None" "remove_fault e ?real \<noteq> Some PermissionError"
      "CopyTree (copy_fault e) (mkdir_fault e) tmp ?real
         (snd (RemoveAll (remove_fault e) ?real (cfs ?S))) = (b, f2)" for b f2
  proof -
    have "first_error (chan ?S) = None" using that(1) by (simp add: first_error_None)
    then show ?thesis using that(2,3) by (simp add: B commit_eq)
  qed
  have p5: "\<forall>r F q. Bootstrap e args fs = Some (r, F) \<longrightarrow> prefix tmp q \<longrightarrow> F q = None"
    by (auto simp: B cleanup_gone split: option.splits)
  show ?thesis using p1 p2 p3 p4 p5 by blast
qed

lemma setLogLevel_error:
  "setLogLevel e args = Inl err \<Longrightarrow> err = ErrParsingArguments \<or> (\<exists>b. err = ErrBadFlagSyntax b)"
  by (auto simp: setLogLevel_def split: option.splits prod.splits list.splits)

lemma fill_staging_error:
  "fill_staging e tmp f = (Inl err, f') \<Longrightarrow>
     (\<exists>p. err = ErrCreateDirFailed p) \<or> err = ErrFetchFailed \<or> (\<exists>c. err = ErrDeserializeFailed c)"
  by (auto simp: fill_staging_def split: option.splits prod.splits bool.splits)

lemma from_writeLicense_not_remove: "from_writeLicense (Some (ErrRemovePathFailed p)) = False"
  by simp

text \<open>
  C10. In the commit the removal of the old cache ends the call with
  \<open>ErrRemovePathFailed\<close> exactly when its error is a permission error; any other
  error of the removal is dropped and the commit goes on to the copy, whose outcome
  decides the result. \<open>Bootstrap\<close> as a whole returns \<open>ErrRemovePathFailed\<close> only
  for the cache path and only when the removal met a permission error.
\<close>

theorem removal_errors:
  "(fst (commit e home tmp f) = Some (ErrRemovePathFailed (realLicensePath e home))
      \<longleftrightarrow> remove_fault e (realLicensePath e home) = Some PermissionError)
   \<and> (remove_fault e (realLicensePath e home) = Some OtherError \<longrightarrow>
        (\<forall>b f2. CopyTree (copy_fault e) (mkdir_fault e) tmp (realLicensePath e home) f = (b, f2)
           \<longrightarrow> commit e home tmp f
                 = (if b then None else Some (ErrCopyTreeFailed tmp (realLicensePath e home)), f2)))
   \<and> (\<forall>p F. Bootstrap e args fs = Some (Some (ErrRemovePathFailed p), F) \<longrightarrow>
        (\<exists>h. home_dir e = Some h \<and> p = realLicensePath e h
              \<and> remove_fault e p = Some PermissionError))"
proof -
  have c1: "fst (commit e home tmp f) = Some (ErrRemovePathFailed (realLicensePath e home))
      \<longleftrightarrow> remove_fault e (realLicensePath e home) = Some PermissionError" for home tmp f
    by (auto simp: commit_eq split: prod.splits)
  have c2: "remove_fault e (realLicensePath e home) = Some OtherError \<longrightarrow>
        (\<forall>b f2. CopyTree (copy_fault e) (mkdir_fault e) tmp (realLicensePath e home) f = (b, f2)
           \<longrightarrow> commit e home tmp f
                 = (if b then None else Some (ErrCopyTreeFailed tmp (realLicensePath e home)), f2))"
    by (auto simp: commit_eq RemoveAll_def)
  have c3: "\<exists>h. home_dir e = Some h \<and> p = realLicensePath e h
              \<and> remove_fault e p = Some PermissionError"
    if b: "Bootstrap e args fs = Some (Some (ErrRemovePathFailed p), F)" for p F
  proof (cases "setLogLevel e args")
    case (Inl err)
    then show ?thesis using b setLogLevel_error[OF Inl] by (auto simp: Bootstrap_def)
  next
    case (Inr lv)
    show ?thesis
    proof (cases "home_dir e")
      case None
      then show ?thesis using b Inr by (simp add: Bootstrap_def)
    next
      case (Some h)
      show ?thesis
      proof (cases "TempDir (temp_candidates e) fs")
        case None
        then show ?thesis using b Inr Some by (simp add: Bootstrap_def)
      next
        case (Some tf)
        obtain t f1 where tf: "tf = (t, f1)" by (cases tf)
        note B = Bootstrap_staged[OF Inr \<open>home_dir e = Some h\<close> Some[unfolded tf]]
        obtain x f2 where fill: "fill_staging e t f1 = (x, f2)" by (cases "fill_staging e t f1")
        show ?thesis
        proof (cases x)
          case (Inl err)
          then show ?thesis using b B fill fill_staging_error[of e t f1 err f2] by auto
        next
          case (Inr ls)
          let ?S = "fan_out e (rawPath t) (templatesPath t) ls f2"
          show ?thesis
          proof (cases "first_error (chan ?S)")
            case (Some err)
            then have "err = ErrRemovePathFailed p" using b B fill Inr by simp
            then have "Some (ErrRemovePathFailed p) \<in> set (chan ?S)"
              using first_error_Some[OF Some] by simp
            then have "from_writeLicense (Some (ErrRemovePathFailed p))"
              by (rule fan_out_chan_errors)
            then show ?thesis by simp
          next
            case None
            then have "fst (commit e h t (cfs ?S)) = Some (ErrRemovePathFailed p)"
              using b B fill Inr by simp
            then have "p = realLicensePath e h \<and> remove_fault e p = Some PermissionError"
              by (auto simp: commit_eq split: if_splits prod.splits)
            then show ?thesis using \<open>home_dir e = Some h\<close> by auto
          qed
        qed
      qed
    qed
  qed
  show ?thesis using c1 c2 c3 by blast
qed

section \<open>Runs in the small world\<close>

lemma demo_wf: "wf_fs demo_fs"
  by (auto simp: wf_fs_def demo_fs_def split: if_splits)

lemma demo_paths:
  "rawPath demo_tmp = demo_tmp @ [''data'', ''raw'']"
  "templatesPath demo_tmp = demo_tmp @ [''data'', ''templates'']"
  "indexFilePath demo_tmp = demo_tmp @ [''data'', ''index.json'']"
  by (simp_all add: rawPath_eq templatesPath_eq indexFilePath_eq)

lemma demo_setLogLevel:
  assumes "flag_parse e = flag_parse demo_env"
  shows "setLogLevel e [] = Inr (False, False)"
  by (simp add: setLogLevel_def assms demo_env_def)

lemma demo_TempDir:
  assumes "temp_candidates e = temp_candidates demo_env"
  shows "TempDir (temp_candidates e) demo_fs = Some (demo_tmp, demo_fs1)"
  by (simp add: TempDir_def assms demo_env_def demo_fs_def demo_tmp_def demo_fs1_def)

lemma demo_make_paths:
  assumes "mkdir_fault e = mkdir_fault demo_env"
  shows "make_paths e [rawPath demo_tmp, templatesPath demo_tmp] demo_fs1 = (None, demo_made)"
  by (simp add: rawPath_eq templatesPath_eq indexFilePath_eq MkdirAll_def assms demo_env_def demo_fs_def demo_tmp_def demo_fs1_def
      demo_made_def)

lemma demo_index_write:
  assumes "write_fault e = write_fault demo_env"
  shows "WriteFile (write_fault e) (indexFilePath demo_tmp) ''[mit,isc]'' demo_made = (True, demo_staged)"
  by (simp add: rawPath_eq templatesPath_eq indexFilePath_eq WriteFile_def assms demo_env_def demo_fs_def demo_tmp_def demo_fs1_def
      demo_made_def demo_staged_def)

lemma demo_fill_staging:
  assumes "mkdir_fault e = mkdir_fault demo_env" "write_fault e = write_fault demo_env"
    "fetchIndex e = fetchIndex demo_env" "jsonToList e = jsonToList demo_env"
  shows "fill_staging e demo_tmp demo_fs1 = (Inr demo_ls, demo_staged)"
  unfolding fill_staging_def demo_make_paths[OF assms(1)]
  by (simp add: assms(3,4) demo_index_write[OF assms(2)] demo_env_def demo_ls_def)

lemma demo_fair_rest: "fair_rest (length demo_ls) = [0, 0, 0, 0, 1, 1, 1, 1]"
  by (simp add: demo_ls_def fair_rest_def numeral_2_eq_2 numeral_eq_Suc)

lemma demo_fan_out_no_detail:
  "chan (fan_out demo_env_no_detail (rawPath demo_tmp) (templatesPath demo_tmp) demo_ls demo_staged)
     = [Some ErrFetchFailed, Some ErrFetchFailed]"
  unfolding fan_out_def demo_fair_rest
  by (simp add: rawPath_eq templatesPath_eq run_def spawn_def step_def writeLicense_raw_def demo_ls_def
      demo_env_no_detail_def demo_env_def)

lemma demo_fan_out_state:
  assumes "fetchFullInfo e = fetchFullInfo demo_env" "jsonToLicense e = jsonToLicense demo_env"
    "textTemplateString e = textTemplateString demo_env" "write_fault e = write_fault demo_env"
    "schedule e = schedule demo_env"
  shows "fan_out e (rawPath demo_tmp) (templatesPath demo_tmp) demo_ls demo_staged
     = \<lparr>tasks = [(demo_license ''mit'', Finished None), (demo_license ''isc'', Finished None)],
        chan = [None, None], wg = 0, cfs = demo_full\<rparr>"
  unfolding fan_out_def demo_fair_rest
  by (simp add: assms rawPath_eq templatesPath_eq run_def spawn_def step_def
      writeLicense_raw_def writeLicense_template_def WriteFile_def Join_def clean_step_def
      demo_license_def demo_ls_def demo_full_def demo_staged_def demo_made_def demo_fs1_def
      demo_tmp_def demo_fs_def demo_env_def)

lemma demo_fan_out:
  assumes "fetchFullInfo e = fetchFullInfo demo_env" "jsonToLicense e = jsonToLicense demo_env"
    "textTemplateString e = textTemplateString demo_env" "write_fault e = write_fault demo_env"
    "schedule e = schedule demo_env"
  shows "chan (fan_out e (rawPath demo_tmp) (templatesPath demo_tmp) demo_ls demo_staged) = [None, None]"
    and "cfs (fan_out e (rawPath demo_tmp) (templatesPath demo_tmp) demo_ls demo_staged) = demo_full"
  by (simp_all add: demo_fan_out_state[OF assms])

section \<open>The claims about Bootstrap, in the small world\<close>

lemma demo_home: "home_dir (demo_env\<lparr>fetchIndex := x\<rparr>) = Some [''home'']"
  "home_dir demo_env = Some [''home'']"
  "home_dir demo_env_no_detail = Some [''home'']"
  "home_dir (demo_env_open_fails p) = Some [''home'']"
  "home_dir (demo_env_faulty rf cf) = Some [''home'']"
  by (simp_all add: demo_env_def demo_env_no_detail_def demo_env_open_fails_def demo_env_faulty_def)

theorem index_write_failure_witness:
  "Bootstrap (demo_env_open_fails (demo_tmp @ [''data'', ''index.json''])) [] demo_fs
     = Some (Some (ErrCreateDirFailed (demo_tmp @ [''data'', ''index.json''])), demo_fs)"
proof -
  let ?e = "demo_env_open_fails (demo_tmp @ [''data'', ''index.json''])"
  have h1: "setLogLevel ?e [] = Inr (False, False)"
    by (rule demo_setLogLevel) (simp add: demo_env_open_fails_def)
  have h2: "home_dir ?e = Some [''home'']" by (rule demo_home)
  have h3: "TempDir (temp_candidates ?e) demo_fs = Some (demo_tmp, demo_fs1)"
    by (rule demo_TempDir) (simp add: demo_env_open_fails_def)
  have h4: "make_paths ?e [rawPath demo_tmp, templatesPath demo_tmp] demo_fs1 = (None, demo_made)"
    by (rule demo_make_paths) (simp add: demo_env_open_fails_def)
  have h5: "fetchIndex ?e = Some ''[mit,isc]''"
    by (simp add: demo_env_open_fails_def demo_env_def)
  have h6: "WriteFile (write_fault ?e) (indexFilePath demo_tmp) ''[mit,isc]'' demo_made
      = (False, demo_made)"
    by (simp add: demo_env_open_fails_def WriteFile_def indexFilePath_eq demo_made_def demo_tmp_def)
  show ?thesis
    using index_write_failure[OF h1 h2 h3 h4 h5 h6] demo_wf by (simp add: indexFilePath_eq)
qed




lemma demo_real_eq: "realLicensePath (demo_env_faulty rf cf) [''home''] = demo_real"
  "realLicensePath demo_env [''home''] = demo_real"
  by (simp_all add: realLicensePath_def demo_env_faulty_def demo_env_def demo_real_def Join_def
      clean_step_def)

lemma demo_faulty_reach:
  "setLogLevel (demo_env_faulty rf cf) [] = Inr (False, False)"
  "TempDir (temp_candidates (demo_env_faulty rf cf)) demo_fs = Some (demo_tmp, demo_fs1)"
  "fill_staging (demo_env_faulty rf cf) demo_tmp demo_fs1 = (Inr demo_ls, demo_staged)"
  "chan (fan_out (demo_env_faulty rf cf) (rawPath demo_tmp) (templatesPath demo_tmp) demo_ls demo_staged)
     = [None, None]"
  "cfs (fan_out (demo_env_faulty rf cf) (rawPath demo_tmp) (templatesPath demo_tmp) demo_ls demo_staged)
     = demo_full"
proof -
  show "setLogLevel (demo_env_faulty rf cf) [] = Inr (False, False)"
    by (rule demo_setLogLevel) (simp add: demo_env_faulty_def)
  show "TempDir (temp_candidates (demo_env_faulty rf cf)) demo_fs = Some (demo_tmp, demo_fs1)"
    by (rule demo_TempDir) (simp add: demo_env_faulty_def)
  show "fill_staging (demo_env_faulty rf cf) demo_tmp demo_fs1 = (Inr demo_ls, demo_staged)"
    by (rule demo_fill_staging) (simp_all add: demo_env_faulty_def)
  show "chan (fan_out (demo_env_faulty rf cf) (rawPath demo_tmp) (templatesPath demo_tmp) demo_ls demo_staged)
     = [None, None]"
    by (rule demo_fan_out(1)) (simp_all add: demo_env_faulty_def)
  show "cfs (fan_out (demo_env_faulty rf cf) (rawPath demo_tmp) (templatesPath demo_tmp) demo_ls demo_staged)
     = demo_full"
    by (rule demo_fan_out(2)) (simp_all add: demo_env_faulty_def)
qed

lemma demo_full_outside:
  assumes "\<not> prefix demo_tmp q"
  shows "demo_full q = demo_fs q"
proof -
  have n: "\<And>r. q \<noteq> demo_tmp @ r" using assms by auto
  have n0: "q \<noteq> demo_tmp" using n[of "[]"] by simp
  show ?thesis
    by (simp add: demo_full_def demo_staged_def demo_made_def demo_fs1_def n n0)
qed

lemma demo_cleanup_full: "cleanup demo_tmp demo_full = demo_fs"
proof (rule cleanup_restores[OF demo_wf])
  show "demo_fs demo_tmp = None" by (simp add: demo_fs_def demo_tmp_def)
  show "\<forall>q. \<not> prefix demo_tmp q \<longrightarrow> demo_full q = demo_fs q"
    by (simp add: demo_full_outside)
qed

lemma demo_no_cache: "prefix demo_real q \<Longrightarrow> demo_full q = None"
proof -
  assume p: "prefix demo_real q"
  then have "\<not> prefix demo_tmp q" by (auto simp: prefix_def demo_real_def demo_tmp_def)
  then have "demo_full q = demo_fs q" by (rule demo_full_outside)
  moreover have "demo_fs q = None" using p by (auto simp: prefix_def demo_real_def demo_fs_def)
  ultimately show ?thesis by simp
qed

lemma demo_remove_real: "snd (RemoveAll rf demo_real demo_full) = demo_full"
proof (cases "rf demo_real")
  case None
  have "(\<lambda>q. if prefix demo_real q then None else demo_full q) = demo_full"
    by (rule ext) (simp add: demo_no_cache)
  then show ?thesis using None by (simp add: RemoveAll_def)
next
  case (Some x)
  then show ?thesis by (simp add: RemoveAll_def)
qed

lemma demo_copy: "fst (CopyTree cf (\<lambda>p. False) demo_tmp demo_real demo_full) = (\<not> cf demo_tmp demo_real)"
proof -
  have a: "demo_full demo_tmp = Some Dir"
    by (simp add: demo_full_def demo_staged_def demo_made_def demo_fs1_def)
  have b: "demo_full demo_real = None" by (rule demo_no_cache) simp
  have c: "fst (MkdirAll (\<lambda>p. False) demo_real demo_full) = True"
    by (simp add: MkdirAll_def demo_real_def demo_full_def demo_staged_def demo_made_def demo_fs1_def
        demo_tmp_def demo_fs_def)
  show ?thesis using a b c
    by (auto simp: CopyTree_def split: prod.splits)
qed

lemma demo_commit:
  "fst (commit (demo_env_faulty rf cf) [''home''] demo_tmp demo_full)
     = (if rf demo_real = Some PermissionError then Some (ErrRemovePathFailed demo_real)
        else if cf demo_tmp demo_real then Some (ErrCopyTreeFailed demo_tmp demo_real) else None)"
proof -
  have m: "mkdir_fault (demo_env_faulty rf cf) = (\<lambda>p. False)"
    "remove_fault (demo_env_faulty rf cf) = rf" "copy_fault (demo_env_faulty rf cf) = cf"
    by (simp_all add: demo_env_faulty_def demo_env_def)
  show ?thesis
    using demo_copy[of cf]
    by (auto simp: commit_eq demo_real_eq m demo_remove_real split: prod.splits)
qed

lemma demo_Bootstrap_faulty:
  "map_option fst (Bootstrap (demo_env_faulty rf cf) [] demo_fs)
     = Some (if rf demo_real = Some PermissionError then Some (ErrRemovePathFailed demo_real)
             else if cf demo_tmp demo_real then Some (ErrCopyTreeFailed demo_tmp demo_real) else None)"
  by (simp add: Bootstrap_staged[OF demo_faulty_reach(1) demo_home(5) demo_faulty_reach(2)]
      demo_faulty_reach demo_commit)

lemma demo_Bootstrap_perm:
  "Bootstrap (demo_env_faulty (demo_rf PermissionError) cf) [] demo_fs
     = Some (Some (ErrRemovePathFailed demo_real), demo_fs)"
proof -
  have "remove_fault (demo_env_faulty (demo_rf PermissionError) cf) demo_real = Some PermissionError"
    by (simp add: demo_env_faulty_def demo_rf_def demo_real_def)
  then show ?thesis
    by (simp add: Bootstrap_staged[OF demo_faulty_reach(1) demo_home(5) demo_faulty_reach(2)]
      demo_faulty_reach commit_eq demo_real_eq demo_cleanup_full)
qed

lemma demo_faulty_fields:
  "mkdir_fault (demo_env_faulty rf cf) = (\<lambda>p. False)"
  "remove_fault (demo_env_faulty rf cf) = rf" "copy_fault (demo_env_faulty rf cf) = cf"
  by (simp_all add: demo_env_faulty_def demo_env_def)

theorem commit_step_witness:
  "Bootstrap (demo_env_faulty (demo_rf PermissionError) (\<lambda>p q. False)) [] demo_fs
     = Some (Some (ErrRemovePathFailed demo_real), demo_fs)
   \<and> map_option fst (Bootstrap (demo_env_faulty (\<lambda>p. None) (\<lambda>p q. True)) [] demo_fs)
     = Some (Some (ErrCopyTreeFailed demo_tmp demo_real))
   \<and> map_option fst (Bootstrap (demo_env_faulty (\<lambda>p. None) (\<lambda>p q. False)) [] demo_fs) = Some None
   \<and> Bootstrap demo_env_no_detail [] demo_fs
     = Some (Some ErrFetchFailed,
             cleanup demo_tmp (cfs (fan_out demo_env_no_detail (rawPath demo_tmp)
                                     (templatesPath demo_tmp) demo_ls demo_staged)))"
proof -
  let ?e1 = "demo_env_faulty (demo_rf PermissionError) (\<lambda>p q. False)"
  let ?e2 = "demo_env_faulty (\<lambda>p. None) (\<lambda>p q. True)"
  let ?e3 = "demo_env_faulty (\<lambda>p. None) (\<lambda>p q. False)"
  let ?e4 = "demo_env_no_detail"
  have all_nil: "\<forall>r\<in>set [None, None :: error option]. r = None" by simp
  have c1: "Bootstrap ?e1 [] demo_fs = Some (Some (ErrRemovePathFailed demo_real), demo_fs)"
  proof -
    note C = commit_step[OF demo_faulty_reach(1) demo_home(5) demo_faulty_reach(2,3),
        of "demo_rf PermissionError" "\<lambda>p q. False",
        unfolded demo_faulty_reach(4,5) demo_real_eq demo_faulty_fields]
    have "demo_rf PermissionError demo_real = Some PermissionError"
      by (simp add: demo_rf_def demo_real_def)
    then have "Bootstrap ?e1 [] demo_fs
        = Some (Some (ErrRemovePathFailed demo_real), cleanup demo_tmp demo_full)"
      using C all_nil by blast
    then show ?thesis by (simp add: demo_cleanup_full)
  qed
  have c2: "map_option fst (Bootstrap ?e2 [] demo_fs) = Some (Some (ErrCopyTreeFailed demo_tmp demo_real))"
  proof -
    note C = commit_step[OF demo_faulty_reach(1) demo_home(5) demo_faulty_reach(2,3),
        of "\<lambda>p. None" "\<lambda>p q. True",
        unfolded demo_faulty_reach(4,5) demo_real_eq demo_faulty_fields demo_remove_real]
    let ?X = "CopyTree (\<lambda>p q. True) (\<lambda>p. False) demo_tmp demo_real demo_full"
    have x: "?X = (False, snd ?X)" using demo_copy[of "\<lambda>p q. True"] by (cases ?X) simp
    have n: "(None :: os_error option) \<noteq> Some PermissionError" by simp
    have "Bootstrap ?e2 [] demo_fs
        = Some (if False then None else Some (ErrCopyTreeFailed demo_tmp demo_real),
                cleanup demo_tmp (snd ?X))"
      using C all_nil n x by blast
    then show ?thesis by simp
  qed
  have c3: "map_option fst (Bootstrap ?e3 [] demo_fs) = Some None"
  proof -
    note C = commit_step[OF demo_faulty_reach(1) demo_home(5) demo_faulty_reach(2,3),
        of "\<lambda>p. None" "\<lambda>p q. False",
        unfolded demo_faulty_reach(4,5) demo_real_eq demo_faulty_fields demo_remove_real]
    let ?X = "CopyTree (\<lambda>p q. False) (\<lambda>p. False) demo_tmp demo_real demo_full"
    have x: "?X = (True, snd ?X)" using demo_copy[of "\<lambda>p q. False"] by (cases ?X) simp
    have n: "(None :: os_error option) \<noteq> Some PermissionError" by simp
    have "Bootstrap ?e3 [] demo_fs
        = Some (if True then None else Some (ErrCopyTreeFailed demo_tmp demo_real),
                cleanup demo_tmp (snd ?X))"
      using C all_nil n x by blast
    then show ?thesis by simp
  qed
  have c4: "Bootstrap ?e4 [] demo_fs
     = Some (Some ErrFetchFailed,
             cleanup demo_tmp (cfs (fan_out ?e4 (rawPath demo_tmp) (templatesPath demo_tmp)
                                     demo_ls demo_staged)))"
  proof -
    have h1: "setLogLevel ?e4 [] = Inr (False, False)"
      by (rule demo_setLogLevel) (simp add: demo_env_no_detail_def)
    have h3: "TempDir (temp_candidates ?e4) demo_fs = Some (demo_tmp, demo_fs1)"
      by (rule demo_TempDir) (simp add: demo_env_no_detail_def)
    have h4: "fill_staging ?e4 demo_tmp demo_fs1 = (Inr demo_ls, demo_staged)"
      by (rule demo_fill_staging) (simp_all add: demo_env_no_detail_def)
    note C = commit_step[OF h1 demo_home(3) h3 h4]
    have f: "first_error (chan (fan_out ?e4 (rawPath demo_tmp) (templatesPath demo_tmp) demo_ls demo_staged))
        = Some ErrFetchFailed"
      by (simp add: demo_fan_out_no_detail)
    then have "first_error (chan (fan_out ?e4 (rawPath demo_tmp) (templatesPath demo_tmp) demo_ls demo_staged))
        \<noteq> None" by simp
    then have "Bootstrap ?e4 [] demo_fs
        = Some (first_error (chan (fan_out ?e4 (rawPath demo_tmp) (templatesPath demo_tmp) demo_ls demo_staged)),
             cleanup demo_tmp (cfs (fan_out ?e4 (rawPath demo_tmp) (templatesPath demo_tmp)
                                     demo_ls demo_staged)))"
      using C by blast
    then show ?thesis by (simp add: f)
  qed
  show ?thesis using c1 c2 c3 c4 by blast
qed

theorem removal_errors_witness:
  "fst (commit (demo_env_faulty (demo_rf PermissionError) (\<lambda>p q. False)) [''home''] demo_tmp demo_full)
     = Some (ErrRemovePathFailed demo_real)
   \<and> fst (commit (demo_env_faulty (demo_rf OtherError) (\<lambda>p q. False)) [''home''] demo_tmp demo_full)
     = None
   \<and> remove_fault (demo_env_faulty (demo_rf PermissionError) (\<lambda>p q. False)) demo_real
     = Some PermissionError"
proof -
  let ?e1 = "demo_env_faulty (demo_rf PermissionError) (\<lambda>p q. False)"
  let ?e2 = "demo_env_faulty (demo_rf OtherError) (\<lambda>p q. False)"
  note R1 = removal_errors[of ?e1 "[''home'']" demo_tmp demo_full "[]" demo_fs,
      unfolded demo_real_eq]
  note R2 = removal_errors[of ?e2 "[''home'']" demo_tmp demo_full "[]" demo_fs,
      unfolded demo_real_eq demo_faulty_fields]
  have p: "remove_fault ?e1 demo_real = Some PermissionError"
    by (simp add: demo_faulty_fields demo_rf_def demo_real_def)
  have c1: "fst (commit ?e1 [''home''] demo_tmp demo_full) = Some (ErrRemovePathFailed demo_real)"
    using R1 p by blast
  have b: "Bootstrap ?e1 [] demo_fs = Some (Some (ErrRemovePathFailed demo_real), demo_fs)"
    by (rule demo_Bootstrap_perm)
  have c3: "\<exists>h. home_dir ?e1 = Some h \<and> demo_real = realLicensePath ?e1 h
      \<and> remove_fault ?e1 demo_real = Some PermissionError"
    using R1 b by blast
  let ?X = "CopyTree (\<lambda>p q. False) (\<lambda>p. False) demo_tmp demo_real demo_full"
  have x: "?X = (True, snd ?X)" using demo_copy[of "\<lambda>p q. False"] by (cases ?X) simp
  have o: "demo_rf OtherError demo_real = Some OtherError"
    by (simp add: demo_rf_def demo_real_def)
  have "commit ?e2 [''home''] demo_tmp demo_full
      = (if True then None else Some (ErrCopyTreeFailed demo_tmp demo_real), snd ?X)"
    using R2 o x by blast
  then have c2: "fst (commit ?e2 [''home''] demo_tmp demo_full) = None" by simp
  show ?thesis using c1 c2 c3 by blast
qed

end
